theory Spec2Isabelle
  imports Main "HOL-Library.Word"
begin

section \<open>C arithmetic used by the plugin\<close>

text \<open>
  Values of the C type \<open>int\<close> are modelled as integers. Row and column coordinates,
  plane sizes and frame numbers are computed with exact arithmetic. The results of the
  arithmetic on the sample accumulators of the kernel pass through \<open>int32\<close>, which is
  a fault when the exact result does not fit a 32-bit two's complement \<open>int\<close>.
  Division and remainder truncate towards zero, as in C.
\<close>

type_synonym u8 = "8 word"

datatype fault = OutOfBounds | Uninitialized | Overflow | DivisionByZero

definition int32 :: "int \<Rightarrow> fault + int" where
  "int32 v = (if - (2 ^ 31) \<le> v \<and> v < 2 ^ 31 then Inr v else Inl Overflow)"

text \<open>
  A value stored as a 32-bit \<open>int\<close> keeps its low 32 bits, read as two's complement:
  this is the conversion \<open>(int)\<close> of a 64-bit value, and what a product that does not
  fit is stored as. \<open>cast_int64\<close> is the same for the 64-bit \<open>int64_t\<close>.
\<close>

definition cast_int :: "int \<Rightarrow> int" where
  "cast_int v = (v + 2 ^ 31) mod 2 ^ 32 - 2 ^ 31"

definition cast_int64 :: "int \<Rightarrow> int" where
  "cast_int64 v = (v + 2 ^ 63) mod 2 ^ 64 - 2 ^ 63"

definition c_div :: "int \<Rightarrow> int \<Rightarrow> int" where
  "c_div a b = (if (a < 0) = (b < 0) then \<bar>a\<bar> div \<bar>b\<bar> else - (\<bar>a\<bar> div \<bar>b\<bar>))"

definition c_rem :: "int \<Rightarrow> int \<Rightarrow> int" where
  "c_rem a b = a - b * c_div a b"

text \<open>Conversion of an \<open>int\<close> to the 64-bit unsigned \<open>size_t\<close>.\<close>

definition size_t :: "int \<Rightarrow> nat" where
  "size_t v = nat (v mod 2 ^ 64)"

text \<open>The index expression \<open>yy * stride + x\<close>, evaluated in \<open>size_t\<close>.\<close>

definition offset :: "int \<Rightarrow> nat \<Rightarrow> int \<Rightarrow> nat" where
  "offset yy stride x = (size_t yy * stride + size_t x) mod 2 ^ 64"

section \<open>Buffers\<close>

text \<open>
  A buffer is a list of cells; a cell that was never written holds \<open>None\<close>. Reading
  outside the buffer or reading a cell that was never written is a fault, and so is
  writing outside the buffer.
\<close>

type_synonym buffer = "u8 option list"

definition load :: "buffer \<Rightarrow> nat \<Rightarrow> fault + u8" where
  "load buf i =
     (if i < length buf
      then (case buf ! i of None \<Rightarrow> Inl Uninitialized | Some v \<Rightarrow> Inr v)
      else Inl OutOfBounds)"

definition store :: "buffer \<Rightarrow> nat \<Rightarrow> u8 \<Rightarrow> fault + buffer" where
  "store buf i v = (if i < length buf then Inr (buf[i := Some v]) else Inl OutOfBounds)"

section \<open>The kernel \<open>deintKernel\<close>, one thread\<close>

text \<open>
  The luma loop \<open>for (dy = -3; dy <= 3; dy += 2)\<close> with its two accumulators
  \<open>sum\<close> (here \<open>sum_v\<close>) and \<open>weight\<close>.
\<close>

function luma_loop ::
  "buffer \<Rightarrow> int \<Rightarrow> nat \<Rightarrow> int \<Rightarrow> int \<Rightarrow> int \<Rightarrow> int \<Rightarrow> int \<Rightarrow> fault + (int \<times> int)" where
  "luma_loop src h stride x y dy sum_v weight =
     (if dy \<le> 3 then
        (let yy = y + dy;
             yy = (if yy < 0 then 0 else yy);
             yy = (if yy \<ge> h then h - 1 else yy);
             wgt = (if \<bar>dy\<bar> = 1 then 4 else 1)
         in case load src (offset yy stride x) of
              Inl e \<Rightarrow> Inl e
            | Inr v \<Rightarrow>
                (case int32 (sum_v + uint v * wgt) of
                   Inl e \<Rightarrow> Inl e
                 | Inr sum_v' \<Rightarrow>
                     (case int32 (weight + wgt) of
                        Inl e \<Rightarrow> Inl e
                      | Inr weight' \<Rightarrow>
                          luma_loop src h stride x y (dy + 2) sum_v' weight')))
      else Inr (sum_v, weight))"
  by pat_completeness auto
termination
  by (relation "measure (\<lambda>(src, h, stride, x, y, dy, sum_v, weight). nat (4 - dy))") auto

text \<open>The row test \<open>useTop ? (y % 2 == 1) : (y % 2 == 0)\<close>.\<close>

definition missing :: "int \<Rightarrow> int \<Rightarrow> bool" where
  "missing useTop y = (if useTop \<noteq> 0 then c_rem y 2 = 1 else c_rem y 2 = 0)"

text \<open>
  The body of the kernel for the thread whose coordinates are \<open>x\<close> and \<open>y\<close>. The result
  is the destination buffer after the thread has run. The value stored is converted to
  \<open>uint8_t\<close>, which keeps its low eight bits.
\<close>

definition deintKernel ::
  "buffer \<Rightarrow> buffer \<Rightarrow> int \<Rightarrow> int \<Rightarrow> nat \<Rightarrow> int \<Rightarrow> int \<Rightarrow> int \<Rightarrow> int \<Rightarrow> fault + buffer" where
  "deintKernel src dst w h stride useTop isChroma x y =
     (if x \<ge> w \<or> y \<ge> h then Inr dst
      else if \<not> missing useTop y then
        (case load src (offset y stride x) of
           Inl e \<Rightarrow> Inl e
         | Inr v \<Rightarrow> store dst (offset y stride x) v)
      else if isChroma = 0 then
        (case luma_loop src h stride x y (- 3) 0 0 of
           Inl e \<Rightarrow> Inl e
         | Inr (sum_v, weight) \<Rightarrow>
             (case int32 (sum_v + c_div weight 2) of
                Inl e \<Rightarrow> Inl e
              | Inr t \<Rightarrow>
                  if weight = 0 then Inl DivisionByZero
                  else store dst (offset y stride x) (word_of_int (c_div t weight))))
      else
        (let y0 = (if y > 0 then y - 1 else 0);
             y1 = (if y + 1 < h then y + 1 else h - 1)
         in case load src (offset y0 stride x) of
              Inl e \<Rightarrow> Inl e
            | Inr b0 \<Rightarrow>
                (case load src (offset y1 stride x) of
                   Inl e \<Rightarrow> Inl e
                 | Inr b1 \<Rightarrow>
                     (let v0 = uint b0; v1 = uint b1
                      in case int32 (v0 + v1 + 1) of
                           Inl e \<Rightarrow> Inl e
                         | Inr t \<Rightarrow>
                             store dst (offset y stride x) (word_of_int (c_div t 2))))))"

section \<open>The host wrapper \<open>runDeintKernel\<close>\<close>

text \<open>
  The launch runs the kernel once for every thread of every block of the grid. A thread
  writes one cell, so the threads are run one after the other, each on the buffer the
  previous one left.
\<close>

definition grid_threads :: "nat \<times> nat \<Rightarrow> nat \<times> nat \<Rightarrow> (int \<times> int) list" where
  "grid_threads blocks threads =
     [(int (bx * fst threads + tx), int (by * snd threads + ty)).
        by \<leftarrow> [0..<snd blocks], bx \<leftarrow> [0..<fst blocks],
        ty \<leftarrow> [0..<snd threads], tx \<leftarrow> [0..<fst threads]]"

fun run_threads ::
  "buffer \<Rightarrow> int \<Rightarrow> int \<Rightarrow> nat \<Rightarrow> int \<Rightarrow> int \<Rightarrow> (int \<times> int) list \<Rightarrow> buffer \<Rightarrow> fault + buffer" where
  "run_threads src w h stride useTop isChroma [] dst = Inr dst"
| "run_threads src w h stride useTop isChroma ((x, y) # ts) dst =
     (case deintKernel src dst w h stride useTop isChroma x y of
        Inl e \<Rightarrow> Inl e
      | Inr dst' \<Rightarrow> run_threads src w h stride useTop isChroma ts dst')"

text \<open>
  \<open>cudaMalloc\<close> gives a buffer of cells never written; \<open>cudaMemcpy\<close> copies
  \<open>frame_size\<close> cells, and is a fault when one of the two buffers is shorter. The
  results of the CUDA calls are not looked at by the wrapper.
\<close>

definition cudaMalloc :: "nat \<Rightarrow> buffer" where
  "cudaMalloc n = replicate n None"

definition cudaMemcpy :: "buffer \<Rightarrow> buffer \<Rightarrow> nat \<Rightarrow> fault + buffer" where
  "cudaMemcpy to from n =
     (if n \<le> length from \<and> n \<le> length to then Inr (take n from @ drop n to)
      else Inl OutOfBounds)"

definition runDeintKernel ::
  "buffer \<Rightarrow> buffer \<Rightarrow> int \<Rightarrow> int \<Rightarrow> int \<Rightarrow> int \<Rightarrow> int \<Rightarrow> fault + buffer" where
  "runDeintKernel sp dp w h stride useTop isChroma =
     (let frame_size = (size_t stride * size_t h) mod 2 ^ 64;
          d_src = cudaMalloc frame_size;
          d_dst = cudaMalloc frame_size
      in case cudaMemcpy d_src sp frame_size of
           Inl e \<Rightarrow> Inl e
         | Inr d_src \<Rightarrow>
             (let threads = (16, 16);
                  blocks = (nat (c_div (w + 15) 16), nat (c_div (h + 15) 16))
              in case run_threads d_src w h (size_t stride) useTop isChroma
                        (grid_threads blocks threads) d_dst of
                   Inl e \<Rightarrow> Inl e
                 | Inr d_dst \<Rightarrow> cudaMemcpy dp d_dst frame_size))"

section \<open>Notation for the statements\<close>

text \<open>
  The two clamping statements of the luma loop, \<open>if (yy < 0) yy = 0;\<close> followed by
  \<open>if (yy >= h) yy = h - 1;\<close>, as one function of the row.
\<close>

definition clamp_row :: "int \<Rightarrow> int \<Rightarrow> int" where
  "clamp_row h yy = (let yy = (if yy < 0 then 0 else yy) in if yy \<ge> h then h - 1 else yy)"

text \<open>
  The cell that the thread of \<open>(x, y)\<close> leaves at the offset of \<open>(y, x)\<close> when it runs
  on a destination of \<open>stride * h\<close> cells never written; \<open>None\<close> when the thread faults
  or does not write.
\<close>

definition thread_cell ::
  "buffer \<Rightarrow> int \<Rightarrow> int \<Rightarrow> nat \<Rightarrow> int \<Rightarrow> int \<Rightarrow> int \<Rightarrow> int \<Rightarrow> u8 option" where
  "thread_cell src w h stride useTop isChroma x y =
     (case deintKernel src (replicate (stride * nat h) None) w h stride useTop isChroma x y of
        Inl e \<Rightarrow> None
      | Inr d \<Rightarrow> d ! offset y stride x)"

section \<open>Frames, clips and the instance data\<close>

text \<open>
  The host's types, as far as the plugin looks at them. A frame is the list of its
  planes; a plane has the width, height and stride the host reports for it and its
  cells. A clip (\<open>VSNode\<close>) has a stream descriptor and gives a frame for a frame
  number. In the stream descriptor \<open>fpsNum\<close> and \<open>fpsDen\<close> are \<open>int64_t\<close> and
  \<open>width\<close>, \<open>height\<close> and \<open>numFrames\<close> are \<open>int\<close>; what is assigned to them is
  stored with the width of the field.
\<close>

record VSVideoFormat =
  numPlanes :: int

record VSVideoInfo =
  format :: VSVideoFormat
  fpsNum :: int
  fpsDen :: int
  width :: int
  height :: int
  numFrames :: int

record VSPlane =
  frameWidth :: int
  frameHeight :: int
  frameStride :: int
  planeData :: buffer

type_synonym VSFrame = "VSPlane list"

record VSNode =
  videoInfo :: VSVideoInfo
  frames :: "int \<Rightarrow> VSFrame"

record CudaDeintData =
  node :: VSNode
  vi :: VSVideoInfo
  tff :: int
  mode :: int

text \<open>
  A plane of a source frame as the host hands it over, with a plane of the
  destination frame of the same size: the rows have \<open>frameStride\<close> cells of which the
  first \<open>frameWidth\<close> are samples, the plane fits the address space, and all cells
  of the source plane are written.
\<close>

definition plane_ok :: "VSPlane \<Rightarrow> VSPlane \<Rightarrow> bool" where
  "plane_ok s t =
     (0 < frameWidth s \<and> 0 < frameHeight s \<and> frameWidth s \<le> frameStride s
      \<and> frameStride s * frameHeight s < 2 ^ 64
      \<and> length (planeData s) = nat (frameStride s) * nat (frameHeight s)
      \<and> None \<notin> set (planeData s)
      \<and> length (planeData t) = nat (frameStride s) * nat (frameHeight s))"

section \<open>Frame processing: \<open>cudaDeintGetFrame\<close>\<close>

datatype activation = arInitial | arAllFramesReady | arError

text \<open>The calls the frame function makes to the host, in the order it makes them.\<close>

datatype vs_call =
    RequestFrameFilter int
  | GetFrameFilter int
  | NewVideoFrame VSVideoFormat int int
  | FreeFrame int

text \<open>
  The loop over the planes. Width, height and stride are read from the source frame;
  a plane number that the frame does not have is a fault.
\<close>

function plane_loop :: "VSFrame \<Rightarrow> bool \<Rightarrow> int \<Rightarrow> int \<Rightarrow> VSFrame \<Rightarrow> fault + VSFrame" where
  "plane_loop src useTop nplanes plane dst =
     (if plane < nplanes then
        (if 0 \<le> plane \<and> nat plane < length src \<and> nat plane < length dst then
           (let w = frameWidth (src ! nat plane);
                h = frameHeight (src ! nat plane);
                stride = frameStride (src ! nat plane);
                sp = planeData (src ! nat plane);
                dp = planeData (dst ! nat plane)
            in case runDeintKernel sp dp w h stride
                      (if useTop then 1 else 0) (if plane > 0 then 1 else 0) of
                 Inl e \<Rightarrow> Inl e
               | Inr dp' \<Rightarrow>
                   plane_loop src useTop nplanes (plane + 1)
                     (dst[nat plane := (dst ! nat plane)\<lparr>planeData := dp'\<rparr>]))
         else Inl OutOfBounds)
      else Inr dst)"
  by pat_completeness auto
termination
  by (relation "measure (\<lambda>(src, useTop, nplanes, plane, dst). nat (nplanes - plane))") auto

text \<open>
  The two values the frame function computes from the frame number \<open>n\<close> and the
  instance data: the source frame number
  \<open>srcN = (d->mode == 0) ? n / 2 : n\<close> and the flag
  \<open>useTop = (d->mode == 0) ? ((n % 2 == 0) == (d->tff == 1)) : (d->tff == 1)\<close>.
\<close>

definition srcN_of :: "CudaDeintData \<Rightarrow> int \<Rightarrow> int" where
  "srcN_of d n = (if mode d = 0 then c_div n 2 else n)"

definition useTop_of :: "CudaDeintData \<Rightarrow> int \<Rightarrow> bool" where
  "useTop_of d n = (if mode d = 0 then ((c_rem n 2 = 0) = (tff d = 1)) else (tff d = 1))"

text \<open>
  The frame function. \<open>newVideoFrame\<close> is the host's allocator. The result is the
  instance data after the call, the calls made to the host, and the frame returned
  (\<open>None\<close> for \<open>nullptr\<close>).
\<close>

definition cudaDeintGetFrame ::
  "(VSVideoFormat \<Rightarrow> int \<Rightarrow> int \<Rightarrow> VSFrame \<Rightarrow> VSFrame) \<Rightarrow> int \<Rightarrow> activation \<Rightarrow> CudaDeintData
     \<Rightarrow> fault + (CudaDeintData \<times> vs_call list \<times> VSFrame option)" where
  "cudaDeintGetFrame newVideoFrame n activationReason d =
     (if activationReason = arInitial then
        (let srcN = srcN_of d n
         in Inr (d, [RequestFrameFilter srcN], None))
      else if activationReason = arAllFramesReady then
        (let srcN = srcN_of d n;
             src = frames (node d) srcN;
             dst = newVideoFrame (format (vi d)) (width (vi d)) (height (vi d)) src;
             useTop = useTop_of d n
         in case plane_loop src useTop (numPlanes (format (vi d))) 0 dst of
              Inl e \<Rightarrow> Inl e
            | Inr dst' \<Rightarrow>
                Inr (d,
                     [GetFrameFilter srcN,
                      NewVideoFrame (format (vi d)) (width (vi d)) (height (vi d)),
                      FreeFrame srcN],
                     Some dst'))
      else Inr (d, [], None))"

section \<open>Construction: \<open>cudaDeintCreate\<close>\<close>

text \<open>
  The argument map of the host holds a clip or an integer under a key. Reading a key
  gives the value or the host's error code: 1 when the key is absent, 2 when the value
  has another type.
\<close>

datatype vs_value = VNode VSNode | VInt int

type_synonym VSMap = "string \<Rightarrow> vs_value option"

definition mapGetNode :: "VSMap \<Rightarrow> string \<Rightarrow> int + VSNode" where
  "mapGetNode m key =
     (case m key of None \<Rightarrow> Inl 1 | Some (VNode nd) \<Rightarrow> Inr nd | Some (VInt i) \<Rightarrow> Inl 2)"

definition mapGetInt :: "VSMap \<Rightarrow> string \<Rightarrow> int + int" where
  "mapGetInt m key =
     (case m key of None \<Rightarrow> Inl 1 | Some (VInt i) \<Rightarrow> Inr i | Some (VNode nd) \<Rightarrow> Inl 2)"

text \<open>
  What \<open>createVideoFilter\<close> is given: the name of the filter, the stream descriptor it
  publishes and the instance data.
\<close>

record VSFilter =
  filterName :: string
  filterVi :: VSVideoInfo
  instanceData :: CudaDeintData

text \<open>
  The result is the filter created, or the message given to \<open>mapSetError\<close>.
\<close>

definition cudaDeintCreate :: "VSMap \<Rightarrow> string + VSFilter" where
  "cudaDeintCreate inm =
     (case mapGetNode inm ''clip'' of
        Inl err \<Rightarrow> Inl ''CudaDeinterlacer: clip is required.''
      | Inr nd \<Rightarrow>
          (let vi0 = videoInfo nd;
               tff0 = (case mapGetInt inm ''tff'' of Inl err \<Rightarrow> 1 | Inr v \<Rightarrow> cast_int v);
               mode0 = (case mapGetInt inm ''mode'' of Inl err \<Rightarrow> 0 | Inr v \<Rightarrow> cast_int v);
               vi1 = (if mode0 = 0
                      then vi0\<lparr>fpsNum := cast_int64 (fpsNum vi0 * 2),
                               numFrames := cast_int (numFrames vi0 * 2)\<rparr>
                      else vi0);
               d = \<lparr>node = nd, vi = vi1, tff = tff0, mode = mode0\<rparr>
           in Inr \<lparr>filterName = ''CudaDeinterlacer'', filterVi = vi d, instanceData = d\<rparr>))"

section \<open>Example values\<close>

text \<open>
  A clip of 100 frames at 24 frames per second whose frames have one plane of 4 rows
  of 2 samples, and argument maps that hold this clip.
\<close>

definition example_vi :: VSVideoInfo where
  "example_vi =
     \<lparr>format = \<lparr>numPlanes = 1\<rparr>, fpsNum = 24, fpsDen = 1, width = 2, height = 4,
      numFrames = 100\<rparr>"

definition example_frame :: VSFrame where
  "example_frame =
     [\<lparr>frameWidth = 2, frameHeight = 4, frameStride = 2,
       planeData = map Some [10, 20, 30, 40, 50, 60, 70, 80]\<rparr>]"

definition example_clip :: VSNode where
  "example_clip = \<lparr>videoInfo = example_vi, frames = (\<lambda>n. example_frame)\<rparr>"

definition example_args :: "vs_value option \<Rightarrow> vs_value option \<Rightarrow> VSMap" where
  "example_args m t =
     (\<lambda>key. if key = ''clip'' then Some (VNode example_clip)
            else if key = ''mode'' then m
            else if key = ''tff'' then t
            else None)"




definition example_data :: "int \<Rightarrow> int \<Rightarrow> CudaDeintData" where
  "example_data m t = \<lparr>node = example_clip, vi = example_vi, tff = t, mode = m\<rparr>"

text \<open>
  An allocator that gives a frame with the planes of the template frame, their cells
  not yet written.
\<close>

definition example_alloc :: "VSVideoFormat \<Rightarrow> int \<Rightarrow> int \<Rightarrow> VSFrame \<Rightarrow> VSFrame" where
  "example_alloc fmt w h template =
     map (\<lambda>p. p\<lparr>planeData := replicate (length (planeData p)) None\<rparr>) template"

section \<open>Arithmetic and buffer lemmas\<close>

declare luma_loop.simps [simp del]
declare plane_loop.simps [simp del]

lemma int32_in_range: "- 2147483648 \<le> v \<Longrightarrow> v < 2147483648 \<Longrightarrow> int32 v = Inr v"
  by (simp add: int32_def)

lemma c_div_nonneg: "0 \<le> a \<Longrightarrow> 0 < b \<Longrightarrow> c_div a b = a div b"
  by (simp add: c_div_def)

lemma c_rem_nonneg: "0 \<le> a \<Longrightarrow> 0 < b \<Longrightarrow> c_rem a b = a mod b"
  by (simp add: c_rem_def c_div_nonneg minus_mult_div_eq_mod)

lemma c_rem_2_zero: "c_rem n 2 = 0 \<longleftrightarrow> even n"
  unfolding c_rem_def c_div_def by (simp split: if_splits) presburger

lemma missing_parity:
  "0 \<le> y \<Longrightarrow> missing useTop y = (if useTop \<noteq> 0 then odd y else even y)"
  by (auto simp: missing_def c_rem_nonneg odd_iff_mod_2_eq_one even_iff_mod_2_eq_zero)

lemma size_t_le: "0 \<le> v \<Longrightarrow> size_t v \<le> nat v"
  unfolding size_t_def
  by (metis nat_mono zmod_le_nonneg_dividend)

lemma offset_le: "0 \<le> yy \<Longrightarrow> 0 \<le> x \<Longrightarrow> offset yy stride x \<le> nat yy * stride + nat x"
proof -
  assume a: "0 \<le> yy" "0 \<le> x"
  have "offset yy stride x \<le> size_t yy * stride + size_t x"
    unfolding offset_def by (rule mod_less_eq_dividend)
  also have "\<dots> \<le> nat yy * stride + nat x"
    using size_t_le[OF a(1)] size_t_le[OF a(2)] by (simp add: add_mono mult_le_mono1)
  finally show ?thesis .
qed

lemma offset_bound:
  assumes "0 \<le> yy" "yy < h" "0 \<le> x" "x < w" "w \<le> int stride"
  shows "offset yy stride x < stride * nat h"
proof -
  have "offset yy stride x \<le> nat yy * stride + nat x"
    using assms by (simp add: offset_le)
  also have "\<dots> < nat yy * stride + stride"
    using assms by linarith
  also have "\<dots> = Suc (nat yy) * stride" by simp
  also have "\<dots> \<le> nat h * stride"
    using assms by (intro mult_le_mono1) linarith
  finally show ?thesis by (simp add: mult.commute)
qed

lemma load_initialised: "i < length bytes \<Longrightarrow> load (map Some bytes) i = Inr (bytes ! i)"
  by (simp add: load_def)

lemma u8_bounds: "0 \<le> uint (v::u8) \<and> uint v \<le> 255"
  using uint_lt2p[of v] by simp

lemma u8_of_int: "0 \<le> r \<Longrightarrow> r \<le> 255 \<Longrightarrow> uint (word_of_int r :: u8) = r"
  by (simp add: uint_word_of_int take_bit_eq_mod)

section \<open>The luma loop, unrolled\<close>

lemma acc_fits:
  fixes v :: u8
  assumes "0 \<le> s" "s \<le> 255 * wt" "wt \<le> 10"
  shows "int32 (s + uint v * (if \<bar>dy\<bar> = 1 then 4 else 1))
           = Inr (s + uint v * (if \<bar>dy\<bar> = 1 then 4 else (1::int)))"
proof -
  define t where "t = uint v * (if \<bar>dy\<bar> = 1 then 4 else (1::int))"
  have v: "0 \<le> uint v" "uint v \<le> 255"
    using u8_bounds[of v] by blast+
  have s: "s \<le> 2550"
    using assms(2,3) by linarith
  have t: "0 \<le> t" "t \<le> 1020"
    using v by (cases "\<bar>dy\<bar> = 1"; simp add: t_def)+
  have "- 2147483648 \<le> s + t" "s + t < 2147483648"
    using assms(1) s t by linarith+
  then show ?thesis
    unfolding t_def by (rule int32_in_range)
qed

lemma weight_fits:
  assumes "0 \<le> wt" "wt \<le> 10"
  shows "int32 (wt + (if \<bar>dy\<bar> = 1 then 4 else 1)) = Inr (wt + (if \<bar>dy\<bar> = 1 then 4 else (1::int)))"
  using assms by (intro int32_in_range) (cases "\<bar>dy\<bar> = 1"; simp)+

lemma luma_step:
  assumes "dy \<le> 3" "0 \<le> s" "s \<le> 255 * wt" "0 \<le> wt" "wt \<le> 10"
  shows "luma_loop src h stride x y dy s wt =
    (case load src (offset (clamp_row h (y + dy)) stride x) of
       Inl e \<Rightarrow> Inl e
     | Inr v \<Rightarrow> luma_loop src h stride x y (dy + 2)
                 (s + uint v * (if \<bar>dy\<bar> = 1 then 4 else 1)) (wt + (if \<bar>dy\<bar> = 1 then 4 else 1)))"
  apply (subst luma_loop.simps)
  apply (simp only: assms(1) if_True Let_def clamp_row_def
      acc_fits[OF assms(2,3,5)] weight_fits[OF assms(4,5)] sum.case)
  done

lemma luma_exit: "3 < dy \<Longrightarrow> luma_loop src h stride x y dy s wt = Inr (s, wt)"
  by (subst luma_loop.simps) simp

lemma luma_loop_closed:
  "luma_loop src h stride x y (- 3) 0 0 =
     (case load src (offset (clamp_row h (y - 3)) stride x) of
        Inl e \<Rightarrow> Inl e
      | Inr a \<Rightarrow>
     (case load src (offset (clamp_row h (y - 1)) stride x) of
        Inl e \<Rightarrow> Inl e
      | Inr b \<Rightarrow>
     (case load src (offset (clamp_row h (y + 1)) stride x) of
        Inl e \<Rightarrow> Inl e
      | Inr c \<Rightarrow>
     (case load src (offset (clamp_row h (y + 3)) stride x) of
        Inl e \<Rightarrow> Inl e
      | Inr d \<Rightarrow> Inr (uint a + uint b * 4 + uint c * 4 + uint d, 10)))))"
proof -
  have s1: "luma_loop src h stride x y (- 3) 0 0 =
      (case load src (offset (clamp_row h (y - 3)) stride x) of
        Inl e \<Rightarrow> Inl e | Inr a \<Rightarrow> luma_loop src h stride x y (- 1) (uint a) 1)"
    by (subst luma_step) (simp_all split: sum.splits)
  have s2: "luma_loop src h stride x y (- 1) (uint a) 1 =
      (case load src (offset (clamp_row h (y - 1)) stride x) of
        Inl e \<Rightarrow> Inl e | Inr b \<Rightarrow> luma_loop src h stride x y 1 (uint a + uint b * 4) 5)" for a :: u8
    using u8_bounds[of a] by (subst luma_step) (simp_all split: sum.splits)
  have s3: "luma_loop src h stride x y 1 (uint a + uint b * 4) 5 =
      (case load src (offset (clamp_row h (y + 1)) stride x) of
        Inl e \<Rightarrow> Inl e | Inr c \<Rightarrow> luma_loop src h stride x y 3 (uint a + uint b * 4 + uint c * 4) 9)" for a b :: u8
    using u8_bounds[of a] u8_bounds[of b] by (subst luma_step) (simp_all split: sum.splits)
  have s4: "luma_loop src h stride x y 3 (uint a + uint b * 4 + uint c * 4) 9 =
      (case load src (offset (clamp_row h (y + 3)) stride x) of
        Inl e \<Rightarrow> Inl e | Inr d \<Rightarrow> Inr (uint a + uint b * 4 + uint c * 4 + uint d, 10))" for a b c :: u8
    using u8_bounds[of a] u8_bounds[of b] u8_bounds[of c]
    by (subst luma_step) (simp_all add: luma_exit split: sum.splits)
  show ?thesis
    by (simp only: s1 s2 s3 s4)
qed


lemma clamp_row_eq: "1 \<le> h \<Longrightarrow> clamp_row h yy = max 0 (min (h - 1) yy)"
  by (simp add: clamp_row_def Let_def max_def min_def)

lemma clamp_row_range: "1 \<le> h \<Longrightarrow> 0 \<le> clamp_row h yy \<and> clamp_row h yy < h"
  by (simp add: clamp_row_def Let_def)

lemma load_fault: "load buf i = Inl e \<Longrightarrow> e = OutOfBounds \<or> e = Uninitialized"
  by (auto simp: load_def split: if_splits option.splits)

lemma luma_loop_fault:
  "luma_loop src h stride x y (- 3) 0 0 = Inl e \<Longrightarrow> e = OutOfBounds \<or> e = Uninitialized"
  unfolding luma_loop_closed
  by (auto split: sum.splits dest: load_fault)

lemma luma_loop_result:
  assumes "luma_loop src h stride x y (- 3) 0 0 = Inr (s, wt)"
  shows "wt = 10 \<and> 0 \<le> s \<and> s \<le> 2550"
proof -
  from assms obtain a b c d :: u8 where "s = uint a + uint b * 4 + uint c * 4 + uint d" "wt = 10"
    unfolding luma_loop_closed by (auto split: sum.splits)
  then show ?thesis
    using u8_bounds[of a] u8_bounds[of b] u8_bounds[of c] u8_bounds[of d] by simp
qed

lemma luma_loop_initialised:
  assumes "0 \<le> x" "x < w" "1 \<le> h" "w \<le> int stride" "length bytes = stride * nat h"
  shows "luma_loop (map Some bytes) h stride x y (- 3) 0 0 =
     Inr (uint (bytes ! offset (clamp_row h (y - 3)) stride x)
          + uint (bytes ! offset (clamp_row h (y - 1)) stride x) * 4
          + uint (bytes ! offset (clamp_row h (y + 1)) stride x) * 4
          + uint (bytes ! offset (clamp_row h (y + 3)) stride x), 10)"
proof -
  have "offset (clamp_row h yy) stride x < length bytes" for yy
    using clamp_row_range[OF assms(3), of yy] assms
    by (simp add: offset_bound[where w = w])
  then show ?thesis
    unfolding luma_loop_closed by (simp add: load_initialised)
qed

lemma rounded_luma:
  assumes "0 \<le> s" "s \<le> 2550"
  shows "int32 (s + c_div 10 2) = Inr (s + 5)" "c_div (s + 5) 10 = (s + 5) div 10"
    "0 \<le> (s + 5) div 10" "(s + 5) div 10 \<le> 255"
  using assms by (simp_all add: int32_in_range c_div_nonneg)

lemma rounded_chroma:
  fixes b0 b1 :: u8
  shows "int32 (uint b0 + uint b1 + 1) = Inr (uint b0 + uint b1 + 1)"
    "c_div (uint b0 + uint b1 + 1) 2 = (uint b0 + uint b1 + 1) div 2"
    "0 \<le> (uint b0 + uint b1 + 1) div 2" "(uint b0 + uint b1 + 1) div 2 \<le> 255"
  using u8_bounds[of b0] u8_bounds[of b1] by (simp_all add: int32_in_range c_div_nonneg)

section \<open>One thread of the kernel on a written source buffer\<close>

lemma deintKernel_outside:
  "w \<le> x \<or> h \<le> y \<Longrightarrow> deintKernel src dst w h stride useTop isChroma x y = Inr dst"
  by (simp add: deintKernel_def)

lemma deintKernel_present:
  assumes "0 \<le> x" "x < w" "0 \<le> y" "y < h" "w \<le> int stride"
    and "length bytes = stride * nat h" "length dst = stride * nat h"
    and "\<not> missing useTop y"
  shows "deintKernel (map Some bytes) dst w h stride useTop isChroma x y =
           Inr (dst[offset y stride x := Some (bytes ! offset y stride x)])"
proof -
  have "offset y stride x < stride * nat h"
    using assms(1-5) by (simp add: offset_bound[where w = w])
  then show ?thesis
    using assms by (simp add: deintKernel_def load_initialised store_def)
qed

lemma deintKernel_luma:
  assumes "0 \<le> x" "x < w" "0 \<le> y" "y < h" "w \<le> int stride"
    and "length bytes = stride * nat h" "length dst = stride * nat h"
    and "missing useTop y" "isChroma = 0"
  defines "s \<equiv> uint (bytes ! offset (clamp_row h (y - 3)) stride x)
          + uint (bytes ! offset (clamp_row h (y - 1)) stride x) * 4
          + uint (bytes ! offset (clamp_row h (y + 1)) stride x) * 4
          + uint (bytes ! offset (clamp_row h (y + 3)) stride x)"
  shows "deintKernel (map Some bytes) dst w h stride useTop isChroma x y =
           Inr (dst[offset y stride x := Some (word_of_int ((s + 5) div 10))])"
    and "0 \<le> (s + 5) div 10" and "(s + 5) div 10 \<le> 255"
proof -
  have h: "1 \<le> h" using assms(3,4) by simp
  have o: "offset y stride x < length dst"
    using assms(1-5,7) by (simp add: offset_bound[where w = w])
  have l: "luma_loop (map Some bytes) h stride x y (- 3) 0 0 = Inr (s, 10)"
    using luma_loop_initialised[OF assms(1,2) h assms(5,6), of y] by (simp add: s_def)
  have r: "0 \<le> s" "s \<le> 2550"
    using luma_loop_result[OF l] by simp_all
  show "deintKernel (map Some bytes) dst w h stride useTop isChroma x y =
          Inr (dst[offset y stride x := Some (word_of_int ((s + 5) div 10))])"
    using assms(2,4,8,9) o by (simp add: deintKernel_def l rounded_luma[OF r] store_def)
  show "0 \<le> (s + 5) div 10" "(s + 5) div 10 \<le> 255"
    using rounded_luma(3,4)[OF r] by simp_all
qed

lemma deintKernel_chroma:
  assumes "0 \<le> x" "x < w" "0 \<le> y" "y < h" "w \<le> int stride"
    and "length bytes = stride * nat h" "length dst = stride * nat h"
    and "missing useTop y" "isChroma \<noteq> 0"
  defines "b0 \<equiv> bytes ! offset (max (y - 1) 0) stride x"
    and "b1 \<equiv> bytes ! offset (min (y + 1) (h - 1)) stride x"
  shows "deintKernel (map Some bytes) dst w h stride useTop isChroma x y =
           Inr (dst[offset y stride x := Some (word_of_int ((uint b0 + uint b1 + 1) div 2))])"
proof -
  define y0 where "y0 = (if y > 0 then y - 1 else 0)"
  define y1 where "y1 = (if y + 1 < h then y + 1 else h - 1)"
  have y0: "0 \<le> y0" "y0 < h" "max (y - 1) 0 = y0"
    using assms(3,4) by (auto simp: y0_def)
  have y1: "0 \<le> y1" "y1 < h" "min (y + 1) (h - 1) = y1"
    using assms(3,4) by (auto simp: y1_def)
  have o: "offset y stride x < length dst" "offset y0 stride x < length bytes"
      "offset y1 stride x < length bytes"
    using assms(1-7) y0(1,2) y1(1,2) by (simp_all add: offset_bound[where w = w])
  show ?thesis
    unfolding b0_def b1_def y0(3) y1(3)
    using assms(2,4,8,9) o
    by (simp add: deintKernel_def Let_def load_initialised store_def rounded_chroma
        flip: y0_def y1_def)
qed

lemma deintKernel_fault:
  assumes "deintKernel src dst w h stride useTop isChroma x y = Inl e"
  shows "e = OutOfBounds \<or> e = Uninitialized"
proof -
  have st: "store b i v = Inl e \<Longrightarrow> e = OutOfBounds" for b i v
    by (simp add: store_def split: if_splits)
  consider (out) "w \<le> x \<or> h \<le> y"
    | (present) "\<not> (w \<le> x \<or> h \<le> y)" "\<not> missing useTop y"
    | (luma) "\<not> (w \<le> x \<or> h \<le> y)" "missing useTop y" "isChroma = 0"
    | (chroma) "\<not> (w \<le> x \<or> h \<le> y)" "missing useTop y" "isChroma \<noteq> 0"
    by blast
  then show ?thesis
  proof cases
    case out
    with assms show ?thesis by (simp add: deintKernel_def)
  next
    case present
    with assms show ?thesis
      by (auto simp: deintKernel_def split: sum.splits dest: load_fault st)
  next
    case luma
    with assms show ?thesis
      by (auto simp: deintKernel_def rounded_luma split: sum.splits if_splits
          dest!: luma_loop_result dest: luma_loop_fault st)
  next
    case chroma
    with assms show ?thesis
      by (auto simp: deintKernel_def Let_def rounded_chroma split: sum.splits
          dest: load_fault st)
  qed
qed

section \<open>The kernel, row by row\<close>

text \<open>
  The statements below are about one thread of the kernel on a plane of \<open>h\<close> rows of
  \<open>stride\<close> cells each, of which the first \<open>w\<close> hold samples. The source buffer
  holds the samples \<open>bytes\<close>, all of them written.
\<close>

text \<open>
  Claim C4. For every row \<open>y\<close> that is not missing and every column \<open>x < w\<close>, the
  thread copies the source sample to the destination unchanged: the cell of the
  destination at \<open>(y, x)\<close> becomes the source sample at \<open>(y, x)\<close>, and no other cell
  changes.
\<close>

theorem present_row_copied:
  assumes "0 \<le> x" "x < w" "0 \<le> y" "y < h" "w \<le> int stride"
    and "length bytes = stride * nat h" "length dst = stride * nat h"
    and "\<not> missing useTop y"
  shows "deintKernel (map Some bytes) dst w h stride useTop isChroma x y =
           Inr (dst[offset y stride x := Some (bytes ! offset y stride x)])"
  using assms by (rule deintKernel_present)

theorem present_row_copied_witness:
  "\<not> missing 1 2 \<and>
   deintKernel (map Some [10, 20, 30, 40, 50, 60, 70, 80]) [None, None, None, None, None, None, None, None] 2 4 2 1 0 1 2 =
     Inr [None, None, None, None, None, Some 60, None, None]"
  using present_row_copied [where x = 1 and y = 2 and w = 2 and h = 4 and stride = 2
      and bytes = "[10, 20, 30, 40, 50, 60, 70, 80]" and dst = "[None, None, None, None, None, None, None, None]"
      and useTop = 1 and isChroma = 0]
  by (simp add: missing_def c_rem_def c_div_def offset_def size_t_def)

text \<open>
  Claim C2. For every missing luma row \<open>y\<close> and every column \<open>x < w\<close>, the thread
  writes \<open>(sum + 5) div 10\<close> at \<open>(y, x)\<close>, where \<open>sum\<close> adds the samples of the
  column at the rows \<open>y - 3\<close>, \<open>y - 1\<close>, \<open>y + 1\<close> and \<open>y + 3\<close>, each row clamped on its
  own to \<open>0 .. h - 1\<close>, with weight 4 for the offsets \<open>\<plusminus>1\<close> and weight 1 for the
  offsets \<open>\<plusminus>3\<close>. Rows that fall together after clamping are each added with
  their full weight, and the divisor is 10 for every row.
\<close>

theorem luma_missing_row:
  assumes "0 \<le> x" "x < w" "0 \<le> y" "y < h" "w \<le> int stride"
    and "length bytes = stride * nat h" "length dst = stride * nat h"
    and "missing useTop y" "isChroma = 0"
  defines "tap \<equiv> \<lambda>dy. uint (bytes ! offset (max 0 (min (h - 1) (y + dy))) stride x)"
  shows "\<exists>v. deintKernel (map Some bytes) dst w h stride useTop isChroma x y =
               Inr (dst[offset y stride x := Some v])
            \<and> uint v = (1 * tap (- 3) + 4 * tap (- 1) + 4 * tap 1 + 1 * tap 3 + 5) div 10"
proof -
  define s where "s = uint (bytes ! offset (clamp_row h (y - 3)) stride x)
          + uint (bytes ! offset (clamp_row h (y - 1)) stride x) * 4
          + uint (bytes ! offset (clamp_row h (y + 1)) stride x) * 4
          + uint (bytes ! offset (clamp_row h (y + 3)) stride x)"
  have h: "1 \<le> h" using assms(3,4) by simp
  note k = deintKernel_luma [OF assms(1-9), folded s_def]
  have t: "1 * tap (- 3) + 4 * tap (- 1) + 4 * tap 1 + 1 * tap 3 = s"
    by (simp add: tap_def s_def clamp_row_eq [OF h])
  show ?thesis
  proof (intro exI conjI)
    show "deintKernel (map Some bytes) dst w h stride useTop isChroma x y =
            Inr (dst[offset y stride x := Some (word_of_int ((s + 5) div 10))])"
      by (rule k(1))
    show "uint (word_of_int ((s + 5) div 10) :: u8) =
            (1 * tap (- 3) + 4 * tap (- 1) + 4 * tap 1 + 1 * tap 3 + 5) div 10"
      unfolding t by (rule u8_of_int [OF k(2,3)])
  qed
qed

theorem luma_missing_row_witness:
  "missing 0 0 \<and>
   (\<exists>v. deintKernel (map Some [10, 20, 30, 40, 50, 60, 70, 80]) [None, None, None, None, None, None, None, None] 2 4 2 0 0 0 0 =
          Inr [Some v, None, None, None, None, None, None, None]
        \<and> uint v = 24)"
  using luma_missing_row [where x = 0 and y = 0 and w = 2 and h = 4 and stride = 2
      and bytes = "[10, 20, 30, 40, 50, 60, 70, 80]" and dst = "[None, None, None, None, None, None, None, None]"
      and useTop = 0 and isChroma = 0]
  by (simp add: missing_def c_rem_def c_div_def offset_def size_t_def)

text \<open>
  Claim C5. For every missing chroma row \<open>y\<close> and every column \<open>x < w\<close>, the thread
  writes \<open>(v0 + v1 + 1) div 2\<close> at \<open>(y, x)\<close>, where \<open>v0\<close> is the sample of the column
  at row \<open>max (y - 1) 0\<close> and \<open>v1\<close> the sample at row \<open>min (y + 1) (h - 1)\<close>.
\<close>

theorem chroma_missing_row:
  assumes "0 \<le> x" "x < w" "0 \<le> y" "y < h" "w \<le> int stride"
    and "length bytes = stride * nat h" "length dst = stride * nat h"
    and "missing useTop y" "isChroma \<noteq> 0"
  defines "v0 \<equiv> uint (bytes ! offset (max (y - 1) 0) stride x)"
    and "v1 \<equiv> uint (bytes ! offset (min (y + 1) (h - 1)) stride x)"
  shows "\<exists>v. deintKernel (map Some bytes) dst w h stride useTop isChroma x y =
               Inr (dst[offset y stride x := Some v])
            \<and> uint v = (v0 + v1 + 1) div 2"
  unfolding v0_def v1_def
  using deintKernel_chroma [OF assms(1-9)] rounded_chroma(3,4) u8_of_int
  by blast

theorem chroma_missing_row_witness:
  "missing 1 3 \<and>
   (\<exists>v. deintKernel (map Some [10, 20, 30, 40, 50, 60, 70, 80]) [None, None, None, None, None, None, None, None] 2 4 2 1 1 1 3 =
          Inr [None, None, None, None, None, None, None, Some v]
        \<and> uint v = 70)"
  using chroma_missing_row [where x = 1 and y = 3 and w = 2 and h = 4 and stride = 2
      and bytes = "[10, 20, 30, 40, 50, 60, 70, 80]" and dst = "[None, None, None, None, None, None, None, None]"
      and useTop = 1 and isChroma = 1]
  by (simp add: missing_def c_rem_def c_div_def offset_def size_t_def)


section \<open>Bounds of the accesses and of the arithmetic\<close>

lemma written_buffer: "None \<notin> set src \<Longrightarrow> src = map Some (map the src)"
  by (induction src) auto

lemma load_in_range: "i < length buf \<Longrightarrow> load buf i \<noteq> Inl OutOfBounds"
  by (simp add: load_def split: option.splits)

lemma luma_loop_in_bounds:
  assumes "0 \<le> x" "x < w" "1 \<le> h" "w \<le> int stride" "length src = stride * nat h"
  shows "luma_loop src h stride x y (- 3) 0 0 \<noteq> Inl OutOfBounds"
proof -
  have "offset (clamp_row h yy) stride x < length src" for yy
    using clamp_row_range[OF assms(3), of yy] assms
    by (simp add: offset_bound[where w = w])
  then have "load src (offset (clamp_row h yy) stride x) \<noteq> Inl OutOfBounds" for yy
    by (rule load_in_range)
  then show ?thesis
    unfolding luma_loop_closed by (auto split: sum.splits)
qed

lemma deintKernel_in_bounds:
  assumes "0 \<le> x" "x < w" "0 \<le> y" "y < h" "w \<le> int stride"
    and "length src = stride * nat h" "length dst = stride * nat h"
  shows "deintKernel src dst w h stride useTop isChroma x y \<noteq> Inl OutOfBounds"
proof -
  have h: "1 \<le> h" using assms(3,4) by simp
  have o: "offset yy stride x < stride * nat h" if "0 \<le> yy" "yy < h" for yy
    using that assms(1,2,5) by (simp add: offset_bound[where w = w])
  have ld: "load src (offset yy stride x) \<noteq> Inl OutOfBounds" if "0 \<le> yy" "yy < h" for yy
    using o[OF that] assms(6) by (simp add: load_in_range)
  have st: "store dst (offset y stride x) v \<noteq> Inl OutOfBounds" for v
    using o[OF assms(3,4)] assms(7) by (simp add: store_def)
  have lm: "luma_loop src h stride x y (- 3) 0 0 \<noteq> Inl OutOfBounds"
    using assms(1,2) h assms(5,6) by (rule luma_loop_in_bounds)
  have y0: "load src (offset (if 0 < y then y - 1 else 0) stride x) \<noteq> Inl OutOfBounds"
    using assms(3,4) by (intro ld) auto
  have y1: "load src (offset (if y + 1 < h then y + 1 else h - 1) stride x) \<noteq> Inl OutOfBounds"
    using assms(3,4) by (intro ld) auto
  show ?thesis
  proof
    assume "deintKernel src dst w h stride useTop isChroma x y = Inl OutOfBounds"
    then show False
      using assms(2,4) ld[OF assms(3,4)] st lm y0 y1
      by (auto simp: deintKernel_def Let_def rounded_luma rounded_chroma
          split: sum.splits if_splits dest!: luma_loop_result)
  qed
qed

lemma deintKernel_written:
  assumes "0 \<le> x" "x < w" "0 \<le> y" "y < h" "w \<le> int stride"
    and "length src = stride * nat h" "length dst = stride * nat h"
    and "None \<notin> set src"
  shows "\<exists>v. deintKernel src dst w h stride useTop isChroma x y =
               Inr (dst[offset y stride x := Some v])"
proof -
  define bytes where "bytes = map the src"
  have src: "src = map Some bytes" "length bytes = stride * nat h"
    using written_buffer[OF assms(8)] assms(6) by (simp_all add: bytes_def)
  note g = assms(1-5) src(2) assms(7)
  consider (present) "\<not> missing useTop y"
    | (luma) "missing useTop y" "isChroma = 0"
    | (chroma) "missing useTop y" "isChroma \<noteq> 0"
    by blast
  then show ?thesis
  proof cases
    case present
    then show ?thesis
      unfolding src(1) using deintKernel_present[OF g] by blast
  next
    case luma
    then show ?thesis
      unfolding src(1) using deintKernel_luma(1)[OF g] by blast
  next
    case chroma
    then show ?thesis
      unfolding src(1) using deintKernel_chroma[OF g] by blast
  qed
qed

text \<open>
  Claim C6. A thread whose coordinates are not below \<open>w\<close> and \<open>h\<close> returns before any
  access: the destination is unchanged whatever the buffers are. For a thread with
  \<open>0 \<le> x < w\<close> and \<open>0 \<le> y < h\<close> on a plane with \<open>w \<le> stride\<close>, whose two buffers have
  \<open>stride * h\<close> cells, no access of the thread is out of bounds; when the cells of the
  source are all written the thread ends without a fault and has written the one cell
  at the offset of \<open>(y, x)\<close>. That offset, and the offset of every clamped row the
  interpolation reads, is below \<open>stride * h\<close>.
\<close>

theorem kernel_accesses_in_bounds:
  "(w \<le> x \<or> h \<le> y \<longrightarrow> deintKernel src dst w h stride useTop isChroma x y = Inr dst)
   \<and> (0 \<le> x \<and> x < w \<and> 0 \<le> y \<and> y < h \<and> w \<le> int stride
        \<and> length src = stride * nat h \<and> length dst = stride * nat h \<longrightarrow>
        deintKernel src dst w h stride useTop isChroma x y \<noteq> Inl OutOfBounds
        \<and> (None \<notin> set src \<longrightarrow>
             (\<exists>v. deintKernel src dst w h stride useTop isChroma x y =
                    Inr (dst[offset y stride x := Some v])))
        \<and> offset y stride x < stride * nat h
        \<and> (\<forall>dy. offset (max 0 (min (h - 1) (y + dy))) stride x < stride * nat h))"
proof (intro conjI impI allI)
  assume "w \<le> x \<or> h \<le> y"
  then show "deintKernel src dst w h stride useTop isChroma x y = Inr dst"
    by (rule deintKernel_outside)
next
  assume a: "0 \<le> x \<and> x < w \<and> 0 \<le> y \<and> y < h \<and> w \<le> int stride
        \<and> length src = stride * nat h \<and> length dst = stride * nat h"
  then show "deintKernel src dst w h stride useTop isChroma x y \<noteq> Inl OutOfBounds"
    by (intro deintKernel_in_bounds) simp_all
  show "offset y stride x < stride * nat h"
    using a by (intro offset_bound[where w = w]) simp_all
  show "offset (max 0 (min (h - 1) (y + dy))) stride x < stride * nat h" for dy
    using a by (intro offset_bound[where w = w]) simp_all
  assume "None \<notin> set src"
  with a show "\<exists>v. deintKernel src dst w h stride useTop isChroma x y =
                    Inr (dst[offset y stride x := Some v])"
    by (intro deintKernel_written) simp_all
qed

theorem kernel_accesses_in_bounds_witness:
  "deintKernel [] [] 2 4 2 1 0 2 0 = Inr []
   \<and> (\<exists>v. deintKernel (map Some [10, 20, 30, 40, 50, 60, 70, 80])
            [None, None, None, None, None, None, None, None] 2 4 2 1 0 1 3 =
          Inr [None, None, None, None, None, None, None, Some v])
   \<and> offset 3 2 1 < 2 * nat 4
   \<and> offset (max 0 (min (4 - 1) (3 + 3))) 2 1 < 2 * nat 4"
  using kernel_accesses_in_bounds [where x = 2 and y = 0 and w = 2 and h = 4 and stride = 2
      and src = "[]" and dst = "[]" and useTop = 1 and isChroma = 0]
    kernel_accesses_in_bounds [where x = 1 and y = 3 and w = 2 and h = 4 and stride = 2
      and src = "map Some [10, 20, 30, 40, 50, 60, 70, 80]"
      and dst = "[None, None, None, None, None, None, None, None]"
      and useTop = 1 and isChroma = 0]
  by (simp add: offset_def size_t_def)

text \<open>
  Claim C7. Samples are 8-bit values. No thread of the kernel ends with an overflow of
  a 32-bit accumulator, whatever its arguments are. When the luma loop returns, the
  weight is 10 and the sum with the rounding term is between 0 and 2555; the rounded
  quotient is between 0 and 255 and is the value of the 8-bit cell it is stored in. The
  same holds for the chroma average of any two samples.
\<close>

theorem accumulator_fits_int32:
  fixes b0 b1 :: u8
  shows
  "deintKernel src dst w h stride useTop isChroma x y \<noteq> Inl Overflow
   \<and> luma_loop src h stride x y (- 3) 0 0 \<noteq> Inl Overflow
   \<and> (luma_loop src h stride x y (- 3) 0 0 = Inr (s, wt) \<longrightarrow>
        wt = 10 \<and> 0 \<le> s \<and> s + c_div wt 2 \<le> 2555
        \<and> int32 (s + c_div wt 2) = Inr (s + c_div wt 2)
        \<and> 0 \<le> c_div (s + c_div wt 2) wt \<and> c_div (s + c_div wt 2) wt \<le> 255
        \<and> uint (word_of_int (c_div (s + c_div wt 2) wt) :: u8) = c_div (s + c_div wt 2) wt)
   \<and> int32 (uint b0 + uint b1 + 1) = Inr (uint b0 + uint b1 + 1)
   \<and> 0 \<le> c_div (uint b0 + uint b1 + 1) 2 \<and> c_div (uint b0 + uint b1 + 1) 2 \<le> 255
   \<and> uint (word_of_int (c_div (uint b0 + uint b1 + 1) 2) :: u8)
       = c_div (uint b0 + uint b1 + 1) 2"
proof -
  have k: "deintKernel src dst w h stride useTop isChroma x y \<noteq> Inl Overflow"
    using deintKernel_fault by fastforce
  have l: "luma_loop src h stride x y (- 3) 0 0 \<noteq> Inl Overflow"
    using luma_loop_fault by fastforce
  have r: "wt = 10 \<and> 0 \<le> s \<and> s + c_div wt 2 \<le> 2555
        \<and> int32 (s + c_div wt 2) = Inr (s + c_div wt 2)
        \<and> 0 \<le> c_div (s + c_div wt 2) wt \<and> c_div (s + c_div wt 2) wt \<le> 255
        \<and> uint (word_of_int (c_div (s + c_div wt 2) wt) :: u8) = c_div (s + c_div wt 2) wt"
    if "luma_loop src h stride x y (- 3) 0 0 = Inr (s, wt)"
  proof -
    have b: "wt = 10" "0 \<le> s" "s \<le> 2550"
      using luma_loop_result[OF that] by simp_all
    note q = rounded_luma[OF b(2,3)]
    have five: "c_div 10 2 = 5"
      by (simp add: c_div_def)
    show ?thesis
      using b q(2-4) q(1)[unfolded five] by (simp add: five u8_of_int)
  qed
  note c = rounded_chroma[of b0 b1]
  have c': "uint (word_of_int ((uint b0 + uint b1 + 1) div 2) :: u8) = (uint b0 + uint b1 + 1) div 2"
    using c(3,4) by (rule u8_of_int)
  show ?thesis
    using k l r c c' by simp
qed

theorem accumulator_fits_int32_witness:
  "luma_loop (map Some [10, 20, 30, 40, 50, 60, 70, 80]) 4 2 0 0 (- 3) 0 0 = Inr (240, 10)
   \<and> 240 + c_div 10 2 \<le> (2555::int)
   \<and> int32 (240 + c_div 10 2) = Inr 245
   \<and> uint (word_of_int (c_div (240 + c_div 10 2) 10) :: u8) = 24"
proof -
  have l: "luma_loop (map Some [10, 20, 30, 40, 50, 60, 70, 80]) 4 2 0 0 (- 3) 0 0 = Inr (240, 10)"
    by (simp add: luma_loop_closed clamp_row_def load_def offset_def size_t_def)
  show ?thesis
    using l accumulator_fits_int32 [where src = "map Some [10, 20, 30, 40, 50, 60, 70, 80]"
        and h = 4 and stride = 2 and x = 0 and y = 0 and s = 240 and wt = 10]
    by (simp add: c_div_def)
qed



section \<open>Frame number and parity\<close>

lemma c_div_2_nonneg: "0 \<le> n \<Longrightarrow> c_div n 2 = n div 2"
  by (simp add: c_div_nonneg)

lemma missing_flag:
  "0 \<le> y \<Longrightarrow> missing (if b then 1 else 0) y = (if b then odd y else even y)"
  by (simp add: missing_parity)

text \<open>
  Claim C1. In double-rate mode (\<open>mode = 0\<close>), for every output frame number
  \<open>n \<ge> 0\<close> the source frame requested and fetched is \<open>n div 2\<close>; the outputs \<open>2 * k\<close> and
  \<open>2 * k + 1\<close> have the same source frame and opposite flags; and the missing rows are the
  odd rows exactly when \<open>(n mod 2 = 0) = (tff = 1)\<close>, the even rows otherwise.
\<close>

theorem double_rate_mapping:
  assumes "mode d = 0" "0 \<le> n" "0 \<le> k"
  shows
  "srcN_of d n = n div 2
   \<and> cudaDeintGetFrame newVideoFrame n arInitial d =
        Inr (d, [RequestFrameFilter (n div 2)], None)
   \<and> cudaDeintGetFrame newVideoFrame n arAllFramesReady d =
        (case plane_loop (frames (node d) (n div 2)) ((n mod 2 = 0) = (tff d = 1))
                (numPlanes (format (vi d))) 0
                (newVideoFrame (format (vi d)) (width (vi d)) (height (vi d))
                   (frames (node d) (n div 2))) of
           Inl e \<Rightarrow> Inl e
         | Inr dst' \<Rightarrow>
             Inr (d,
                  [GetFrameFilter (n div 2),
                   NewVideoFrame (format (vi d)) (width (vi d)) (height (vi d)),
                   FreeFrame (n div 2)],
                  Some dst'))
   \<and> srcN_of d (2 * k) = k \<and> srcN_of d (2 * k + 1) = k
   \<and> useTop_of d (2 * k) \<noteq> useTop_of d (2 * k + 1)
   \<and> useTop_of d n = ((n mod 2 = 0) = (tff d = 1))
   \<and> (\<forall>y. 0 \<le> y \<longrightarrow>
         missing (if useTop_of d n then 1 else 0) y =
           (if (n mod 2 = 0) = (tff d = 1) then odd y else even y))"
proof -
  have s: "srcN_of d n = n div 2"
    using assms(1,2) by (simp add: srcN_of_def c_div_2_nonneg)
  have u: "useTop_of d m = ((m mod 2 = 0) = (tff d = 1))" for m
    using assms(1) by (simp add: useTop_of_def c_rem_2_zero even_iff_mod_2_eq_zero)
  have k: "srcN_of d (2 * k) = k" "srcN_of d (2 * k + 1) = k"
    using assms(1,3) by (simp_all add: srcN_of_def c_div_2_nonneg)
  have p: "useTop_of d (2 * k) \<noteq> useTop_of d (2 * k + 1)"
    unfolding u by presburger
  have m: "missing (if useTop_of d n then 1 else 0) y =
           (if (n mod 2 = 0) = (tff d = 1) then odd y else even y)" if "0 \<le> y" for y
    using that by (simp only: missing_flag u)
  show ?thesis
    using k p m by (simp add: cudaDeintGetFrame_def s u Let_def)
qed



theorem double_rate_mapping_witness:
  "mode (example_data 0 1) = 0
   \<and> srcN_of (example_data 0 1) 5 = 2
   \<and> cudaDeintGetFrame example_alloc 5 arInitial (example_data 0 1) =
        Inr (example_data 0 1, [RequestFrameFilter 2], None)
   \<and> srcN_of (example_data 0 1) (2 * 3) = 3 \<and> srcN_of (example_data 0 1) (2 * 3 + 1) = 3
   \<and> useTop_of (example_data 0 1) (2 * 3) \<noteq> useTop_of (example_data 0 1) (2 * 3 + 1)
   \<and> useTop_of (example_data 0 1) 5 = False
   \<and> missing (if useTop_of (example_data 0 1) 5 then 1 else 0) 0"
proof -
  have c: "mode (example_data 0 1) = 0" "tff (example_data 0 1) = 1"
    by (simp_all add: example_data_def)
  have z: "(0::int) \<le> 5" "(0::int) \<le> 3"
    by simp_all
  show ?thesis
    using c double_rate_mapping [where d = "example_data 0 1" and n = 5 and k = 3
        and newVideoFrame = example_alloc, OF c(1) z]
    by (elim conjE allE [where x = "0::int"]) simp
qed

text \<open>
  Claim C3. In single-rate mode (\<open>mode = 1\<close>), for every output frame number \<open>n\<close> the
  source frame requested and fetched is \<open>n\<close>, and the flag does not depend on \<open>n\<close>:
  the odd rows are missing when \<open>tff = 1\<close> (top field first) and the even rows are missing
  otherwise.
\<close>

theorem single_rate_mapping:
  assumes "mode d = 1"
  shows
  "srcN_of d n = n
   \<and> cudaDeintGetFrame newVideoFrame n arInitial d = Inr (d, [RequestFrameFilter n], None)
   \<and> cudaDeintGetFrame newVideoFrame n arAllFramesReady d =
        (case plane_loop (frames (node d) n) (tff d = 1) (numPlanes (format (vi d))) 0
                (newVideoFrame (format (vi d)) (width (vi d)) (height (vi d))
                   (frames (node d) n)) of
           Inl e \<Rightarrow> Inl e
         | Inr dst' \<Rightarrow>
             Inr (d,
                  [GetFrameFilter n,
                   NewVideoFrame (format (vi d)) (width (vi d)) (height (vi d)),
                   FreeFrame n],
                  Some dst'))
   \<and> useTop_of d n = (tff d = 1)
   \<and> useTop_of d n = useTop_of d n'
   \<and> (\<forall>y. 0 \<le> y \<longrightarrow>
         missing (if useTop_of d n then 1 else 0) y = (if tff d = 1 then odd y else even y))"
proof -
  have s: "srcN_of d m = m" for m
    using assms by (simp add: srcN_of_def)
  have u: "useTop_of d m = (tff d = 1)" for m
    using assms by (simp add: useTop_of_def)
  have m: "missing (if useTop_of d n then 1 else 0) y = (if tff d = 1 then odd y else even y)"
    if "0 \<le> y" for y
    using that by (simp only: missing_flag u)
  show ?thesis
    using m by (simp add: cudaDeintGetFrame_def s u Let_def)
qed

theorem single_rate_mapping_witness:
  "mode (example_data 1 0) = 1
   \<and> srcN_of (example_data 1 0) 5 = 5
   \<and> cudaDeintGetFrame example_alloc 5 arInitial (example_data 1 0) =
        Inr (example_data 1 0, [RequestFrameFilter 5], None)
   \<and> useTop_of (example_data 1 0) 5 = False
   \<and> useTop_of (example_data 1 0) 5 = useTop_of (example_data 1 0) 6
   \<and> missing (if useTop_of (example_data 1 0) 5 then 1 else 0) 2"
proof -
  have c: "mode (example_data 1 0) = 1" "tff (example_data 1 0) = 0"
    by (simp_all add: example_data_def)
  show ?thesis
    using c single_rate_mapping [where d = "example_data 1 0" and n = 5 and n' = 6
        and newVideoFrame = example_alloc, OF c(1)]
    by (elim conjE allE [where x = "2::int"]) simp
qed



section \<open>Construction\<close>

lemma create_without_clip:
  "inm ''clip'' = None \<Longrightarrow> cudaDeintCreate inm = Inl ''CudaDeinterlacer: clip is required.''"
  by (simp add: cudaDeintCreate_def mapGetNode_def)

lemma create_with_clip:
  assumes "inm ''clip'' = Some (VNode nd)"
  defines "m \<equiv> (case mapGetInt inm ''mode'' of Inl err \<Rightarrow> 0 | Inr v \<Rightarrow> cast_int v)"
    and "t \<equiv> (case mapGetInt inm ''tff'' of Inl err \<Rightarrow> 1 | Inr v \<Rightarrow> cast_int v)"
  defines "v \<equiv> (if m = 0
                 then (videoInfo nd)\<lparr>fpsNum := cast_int64 (fpsNum (videoInfo nd) * 2),
                                      numFrames := cast_int (numFrames (videoInfo nd) * 2)\<rparr>
                 else videoInfo nd)"
  shows "cudaDeintCreate inm =
           Inr \<lparr>filterName = ''CudaDeinterlacer'', filterVi = v,
                instanceData = \<lparr>node = nd, vi = v, tff = t, mode = m\<rparr>\<rparr>"
  using assms(1) by (simp add: cudaDeintCreate_def mapGetNode_def Let_def m_def t_def v_def)






text \<open>
  Claim C10. When the argument \<open>clip\<close> is absent, construction ends with the error
  message \<open>CudaDeinterlacer: clip is required.\<close> and no filter is created. When the clip
  is present a filter is created on that clip, with \<open>mode = 0\<close> when the argument
  \<open>mode\<close> is absent and \<open>tff = 1\<close> when the argument \<open>tff\<close> is absent.
\<close>

theorem create_requires_clip:
  "(inm ''clip'' = None \<longrightarrow>
      cudaDeintCreate inm = Inl ''CudaDeinterlacer: clip is required.'')
   \<and> (inm ''clip'' = Some (VNode nd) \<longrightarrow>
        (\<exists>f. cudaDeintCreate inm = Inr f
            \<and> filterName f = ''CudaDeinterlacer''
            \<and> node (instanceData f) = nd
            \<and> (inm ''mode'' = None \<longrightarrow> mode (instanceData f) = 0)
            \<and> (inm ''tff'' = None \<longrightarrow> tff (instanceData f) = 1)))"
  by (auto simp: create_without_clip create_with_clip mapGetInt_def)

theorem create_requires_clip_witness:
  "cudaDeintCreate (\<lambda>key. None) = Inl ''CudaDeinterlacer: clip is required.''
   \<and> (\<exists>f. cudaDeintCreate (example_args None None) = Inr f
          \<and> node (instanceData f) = example_clip
          \<and> mode (instanceData f) = 0 \<and> tff (instanceData f) = 1)"
  using create_requires_clip [where inm = "\<lambda>key. None"]
    create_requires_clip [where inm = "example_args None None" and nd = example_clip]
  by (auto simp: example_args_def)



lemma getFrame_normalised:
  "map_sum id snd (cudaDeintGetFrame newVideoFrame n a d) =
   map_sum id snd (cudaDeintGetFrame newVideoFrame n a
     (d\<lparr>mode := (if mode d = 0 then 0 else 1), tff := (if tff d = 1 then 1 else 0)\<rparr>))"
  by (simp add: cudaDeintGetFrame_def srcN_of_def useTop_of_def Let_def split: sum.splits)

lemma getFrame_keeps_data:
  "cudaDeintGetFrame newVideoFrame n a d = Inr r \<Longrightarrow> fst r = d"
  by (auto simp: cudaDeintGetFrame_def Let_def split: if_splits sum.splits)

text \<open>
  Claim C9 says that construction brings \<open>mode\<close> into \<open>{0, 1}\<close> and the field order
  into its two values, rejecting or normalising any other integer. Construction does
  neither: with \<open>mode = 2\<close> and \<open>tff = 7\<close> the filter is created and both values are
  stored as they are.
\<close>

theorem configuration_range_counterexample:
  "cudaDeintCreate (example_args (Some (VInt 2)) (Some (VInt 7))) =
     Inr \<lparr>filterName = ''CudaDeinterlacer'', filterVi = example_vi,
          instanceData = example_data 2 7\<rparr>
   \<and> mode (example_data 2 7) \<notin> {0, 1}
   \<and> tff (example_data 2 7) \<notin> {0, 1}"
proof -
  have c: "example_args (Some (VInt 2)) (Some (VInt 7)) ''clip'' = Some (VNode example_clip)"
    by (simp add: example_args_def)
  show ?thesis
    using create_with_clip [where inm = "example_args (Some (VInt 2)) (Some (VInt 7))"
        and nd = example_clip, OF c]
    by (simp add: mapGetInt_def example_args_def cast_int_def example_clip_def
        example_data_def)
qed

text \<open>
  Claim C9, amended. Construction stores the \<open>mode\<close> and \<open>tff\<close> it is given, converted
  to \<open>int\<close>, and 0 and 1 when they are absent, with no check of their range. The
  frame function makes the same host calls and returns the same frame for any
  \<open>mode\<close> other than 0 as for \<open>mode = 1\<close>, and for any \<open>tff\<close> other than 1 as for
  \<open>tff = 0\<close>; and it returns the instance data as it was given.
\<close>

theorem instance_configuration:
  "(inm ''clip'' = Some (VNode nd) \<longrightarrow>
      (\<exists>f. cudaDeintCreate inm = Inr f
          \<and> mode (instanceData f) =
              (case inm ''mode'' of Some (VInt v) \<Rightarrow> cast_int v | _ \<Rightarrow> 0)
          \<and> tff (instanceData f) =
              (case inm ''tff'' of Some (VInt v) \<Rightarrow> cast_int v | _ \<Rightarrow> 1)))
   \<and> map_sum id snd (cudaDeintGetFrame newVideoFrame n a d) =
       map_sum id snd (cudaDeintGetFrame newVideoFrame n a
         (d\<lparr>mode := (if mode d = 0 then 0 else 1), tff := (if tff d = 1 then 1 else 0)\<rparr>))
   \<and> (cudaDeintGetFrame newVideoFrame n a d = Inr r \<longrightarrow> fst r = d)"
proof (intro conjI impI)
  assume c: "inm ''clip'' = Some (VNode nd)"
  show "\<exists>f. cudaDeintCreate inm = Inr f
          \<and> mode (instanceData f) =
              (case inm ''mode'' of Some (VInt v) \<Rightarrow> cast_int v | _ \<Rightarrow> 0)
          \<and> tff (instanceData f) =
              (case inm ''tff'' of Some (VInt v) \<Rightarrow> cast_int v | _ \<Rightarrow> 1)"
    using create_with_clip [where inm = inm and nd = nd, OF c]
    by (simp add: mapGetInt_def split: option.splits vs_value.splits)
next
  show "map_sum id snd (cudaDeintGetFrame newVideoFrame n a d) =
       map_sum id snd (cudaDeintGetFrame newVideoFrame n a
         (d\<lparr>mode := (if mode d = 0 then 0 else 1), tff := (if tff d = 1 then 1 else 0)\<rparr>))"
    by (rule getFrame_normalised)
next
  assume "cudaDeintGetFrame newVideoFrame n a d = Inr r"
  then show "fst r = d"
    by (rule getFrame_keeps_data)
qed

theorem instance_configuration_witness:
  "(\<exists>f. cudaDeintCreate (example_args (Some (VInt 2)) (Some (VInt 7))) = Inr f
       \<and> mode (instanceData f) = 2 \<and> tff (instanceData f) = 7)
   \<and> map_sum id snd (cudaDeintGetFrame example_alloc 5 arInitial (example_data 2 7)) =
       map_sum id snd (cudaDeintGetFrame example_alloc 5 arInitial (example_data 1 0))
   \<and> cudaDeintGetFrame example_alloc 5 arInitial (example_data 2 7) =
       Inr (example_data 2 7, [RequestFrameFilter 5], None)
   \<and> fst (example_data 2 7, [RequestFrameFilter 5], None :: VSFrame option) = example_data 2 7"
proof -
  have g: "cudaDeintGetFrame example_alloc 5 arInitial (example_data 2 7) =
       Inr (example_data 2 7, [RequestFrameFilter 5], None)"
    by (simp add: cudaDeintGetFrame_def srcN_of_def example_data_def)
  have e: "(example_data 2 7)\<lparr>mode := 1, tff := 0\<rparr> = example_data 1 0"
    by (simp add: example_data_def)
  have m: "mode (example_data 2 7) = 2" "tff (example_data 2 7) = 7"
    by (simp_all add: example_data_def)
  show ?thesis
    using instance_configuration [where inm = "example_args (Some (VInt 2)) (Some (VInt 7))"
        and nd = example_clip and newVideoFrame = example_alloc and n = 5 and a = arInitial
        and d = "example_data 2 7" and r = "(example_data 2 7, [RequestFrameFilter 5], None)"]
      g
    by (simp add: m e) (simp add: example_args_def cast_int_def)
qed



section \<open>The whole launch\<close>

text \<open>
  The value a thread writes does not depend on the destination buffer, so the threads
  of a launch can be run in any order.
\<close>

lemma deintKernel_value:
  assumes "0 \<le> x" "x < w" "0 \<le> y" "y < h" "w \<le> int stride"
    and "length src = stride * nat h" "None \<notin> set src"
  shows "\<exists>v. \<forall>dst. length dst = stride * nat h \<longrightarrow>
           deintKernel src dst w h stride useTop isChroma x y =
             Inr (dst[offset y stride x := Some v])"
proof -
  define bytes where "bytes = map the src"
  have src: "src = map Some bytes" "length bytes = stride * nat h"
    using written_buffer[OF assms(7)] assms(6) by (simp_all add: bytes_def)
  note g = assms(1-5) src(2)
  consider (present) "\<not> missing useTop y"
    | (luma) "missing useTop y" "isChroma = 0"
    | (chroma) "missing useTop y" "isChroma \<noteq> 0"
    by blast
  then show ?thesis
  proof cases
    case present
    then show ?thesis
      unfolding src(1) using deintKernel_present[OF g] by blast
  next
    case luma
    then show ?thesis
      unfolding src(1) using deintKernel_luma(1)[OF g] by blast
  next
    case chroma
    then show ?thesis
      unfolding src(1) using deintKernel_chroma[OF g] by blast
  qed
qed

lemma deintKernel_thread_cell:
  assumes "0 \<le> x" "x < w" "0 \<le> y" "y < h" "w \<le> int stride"
    and "length src = stride * nat h" "None \<notin> set src" "length dst = stride * nat h"
  shows "deintKernel src dst w h stride useTop isChroma x y =
           Inr (dst[offset y stride x := thread_cell src w h stride useTop isChroma x y])"
    and "thread_cell src w h stride useTop isChroma x y \<noteq> None"
proof -
  obtain v where v: "\<And>dst. length dst = stride * nat h \<Longrightarrow>
           deintKernel src dst w h stride useTop isChroma x y =
             Inr (dst[offset y stride x := Some v])"
    using deintKernel_value[OF assms(1-7)] by blast
  have o: "offset y stride x < stride * nat h"
    using assms(1-5) by (simp add: offset_bound[where w = w])
  have c: "thread_cell src w h stride useTop isChroma x y = Some v"
    using o by (simp add: thread_cell_def v)
  show "deintKernel src dst w h stride useTop isChroma x y =
           Inr (dst[offset y stride x := thread_cell src w h stride useTop isChroma x y])"
    by (simp add: c v[OF assms(8)])
  show "thread_cell src w h stride useTop isChroma x y \<noteq> None"
    by (simp add: c)
qed



text \<open>
  Without wrap-around the offset of \<open>(y, x)\<close> is \<open>y * stride + x\<close>, and two pixels of
  the plane have two offsets.
\<close>

lemma offset_exact:
  assumes "0 \<le> yy" "yy < h" "0 \<le> x" "x < w" "w \<le> int stride" "stride * nat h < 2 ^ 64"
  shows "offset yy stride x = nat yy * stride + nat x"
proof -
  have b: "nat yy * stride + nat x < stride * nat h"
  proof -
    have "nat yy * stride + nat x < nat yy * stride + stride"
      using assms by linarith
    also have "\<dots> = Suc (nat yy) * stride" by simp
    also have "\<dots> \<le> nat h * stride"
      using assms by (intro mult_le_mono1) linarith
    finally show ?thesis by (simp add: mult.commute)
  qed
  have s: "0 < stride" using assms(3,4,5) by linarith
  have "nat yy < 2 ^ 64"
  proof -
    have "nat yy * 1 \<le> nat yy * stride" using s by (intro mult_le_mono2) simp
    then show ?thesis using b assms(6) by linarith
  qed
  then have y: "size_t yy = nat yy"
    using assms(1) by (simp add: size_t_def nat_mod_distrib nat_power_eq)
  have "nat x < 2 ^ 64" using b assms(6) by linarith
  then have x: "size_t x = nat x"
    using assms(3) by (simp add: size_t_def nat_mod_distrib nat_power_eq)
  show ?thesis
    unfolding offset_def x y using b assms(6) by simp
qed

lemma offset_inj:
  assumes "0 \<le> y" "y < h" "0 \<le> x" "x < w" "0 \<le> y'" "y' < h" "0 \<le> x'" "x' < w"
    and "w \<le> int stride" "stride * nat h < 2 ^ 64"
    and "offset y stride x = offset y' stride x'"
  shows "x = x' \<and> y = y'"
proof -
  have e: "nat y * stride + nat x = nat y' * stride + nat x'"
    using assms(11)
    by (simp add: offset_exact[OF assms(1-4,9,10)] offset_exact[OF assms(5-8,9,10)])
  have lx: "nat x < stride" "nat x' < stride"
    using assms by linarith+
  have "(nat y * stride + nat x) div stride = nat y" "(nat y * stride + nat x) mod stride = nat x"
    using lx by simp_all
  moreover have "(nat y' * stride + nat x') div stride = nat y'"
    "(nat y' * stride + nat x') mod stride = nat x'"
    using lx by simp_all
  ultimately have "nat y = nat y'" "nat x = nat x'"
    using e by simp_all
  then show ?thesis
    using assms(1,3,5,7) by (simp add: eq_nat_nat_iff)
qed

text \<open>The effect of a list of threads, one cell at a time.\<close>

lemma run_threads_cells:
  assumes g: "w \<le> int stride" "length src = stride * nat h" "None \<notin> set src"
      "stride * nat h < 2 ^ 64"
    and ts: "\<forall>(x, y) \<in> set ts. 0 \<le> x \<and> 0 \<le> y"
    and dst: "length dst = stride * nat h"
  shows "\<exists>dst'. run_threads src w h stride useTop isChroma ts dst = Inr dst'
     \<and> length dst' = stride * nat h
     \<and> (\<forall>x y. 0 \<le> x \<and> x < w \<and> 0 \<le> y \<and> y < h \<longrightarrow>
           dst' ! offset y stride x =
             (if (x, y) \<in> set ts then thread_cell src w h stride useTop isChroma x y
              else dst ! offset y stride x))
     \<and> (\<forall>i. (\<forall>x y. 0 \<le> x \<and> x < w \<and> 0 \<le> y \<and> y < h \<longrightarrow> offset y stride x \<noteq> i) \<longrightarrow>
           dst' ! i = dst ! i)"
  using ts dst
proof (induction ts arbitrary: dst)
  case Nil
  then show ?case by simp
next
  case (Cons t ts)
  obtain a b where t: "t = (a, b)" by (cases t)
  have ab: "0 \<le> a" "0 \<le> b" using Cons.prems(1) by (simp_all add: t)
  have rest: "\<forall>(x, y) \<in> set ts. 0 \<le> x \<and> 0 \<le> y" using Cons.prems(1) by simp
  show ?case
  proof (cases "a < w \<and> b < h")
    case False
    then have k: "deintKernel src dst w h stride useTop isChroma a b = Inr dst"
      by (intro deintKernel_outside) auto
    obtain dst' where r: "run_threads src w h stride useTop isChroma ts dst = Inr dst'"
      "length dst' = stride * nat h"
      "\<And>x y. 0 \<le> x \<and> x < w \<and> 0 \<le> y \<and> y < h \<Longrightarrow>
           dst' ! offset y stride x =
             (if (x, y) \<in> set ts then thread_cell src w h stride useTop isChroma x y
              else dst ! offset y stride x)"
      "\<And>i. (\<forall>x y. 0 \<le> x \<and> x < w \<and> 0 \<le> y \<and> y < h \<longrightarrow> offset y stride x \<noteq> i) \<Longrightarrow>
           dst' ! i = dst ! i"
      using Cons.IH[OF rest Cons.prems(2)] by blast
    have "run_threads src w h stride useTop isChroma (t # ts) dst = Inr dst'"
      by (simp add: t k r(1))
    moreover have "dst' ! offset y stride x =
             (if (x, y) \<in> set (t # ts) then thread_cell src w h stride useTop isChroma x y
              else dst ! offset y stride x)"
      if "0 \<le> x \<and> x < w \<and> 0 \<le> y \<and> y < h" for x y
      using r(3)[OF that] that False by (auto simp: t)
    ultimately show ?thesis
      using r(2,4) by blast
  next
    case True
    define d where "d = dst[offset b stride a := thread_cell src w h stride useTop isChroma a b]"
    have k: "deintKernel src dst w h stride useTop isChroma a b = Inr d"
      unfolding d_def
      using ab True g(1-3) Cons.prems(2) by (intro deintKernel_thread_cell(1)) simp_all
    have ld: "length d = stride * nat h"
      using Cons.prems(2) by (simp add: d_def)
    have oab: "offset b stride a < stride * nat h"
      using ab True g(1) by (intro offset_bound[where w = w]) simp_all
    obtain dst' where r: "run_threads src w h stride useTop isChroma ts d = Inr dst'"
      "length dst' = stride * nat h"
      "\<And>x y. 0 \<le> x \<and> x < w \<and> 0 \<le> y \<and> y < h \<Longrightarrow>
           dst' ! offset y stride x =
             (if (x, y) \<in> set ts then thread_cell src w h stride useTop isChroma x y
              else d ! offset y stride x)"
      "\<And>i. (\<forall>x y. 0 \<le> x \<and> x < w \<and> 0 \<le> y \<and> y < h \<longrightarrow> offset y stride x \<noteq> i) \<Longrightarrow>
           dst' ! i = d ! i"
      using Cons.IH[OF rest ld] by blast
    have "run_threads src w h stride useTop isChroma (t # ts) dst = Inr dst'"
      by (simp add: t k r(1))
    moreover have "dst' ! offset y stride x =
             (if (x, y) \<in> set (t # ts) then thread_cell src w h stride useTop isChroma x y
              else dst ! offset y stride x)"
      if xy: "0 \<le> x \<and> x < w \<and> 0 \<le> y \<and> y < h" for x y
    proof (cases "(x, y) = (a, b)")
      case same: True
      then show ?thesis
        using r(3)[OF xy] oab Cons.prems(2) by (auto simp: t d_def)
    next
      case other: False
      have "offset y stride x \<noteq> offset b stride a"
        using offset_inj[where x = x and y = y and x' = a and y' = b and w = w and h = h
            and stride = stride] xy ab True g(1,4) other by auto
      then have "d ! offset y stride x = dst ! offset y stride x"
        by (simp add: d_def)
      then show ?thesis
        using r(3)[OF xy] other by (auto simp: t)
    qed
    moreover have "dst' ! i = dst ! i"
      if "\<forall>x y. 0 \<le> x \<and> x < w \<and> 0 \<le> y \<and> y < h \<longrightarrow> offset y stride x \<noteq> i" for i
    proof -
      have "offset b stride a \<noteq> i" using that ab True by blast
      then show ?thesis using r(4)[OF that] by (simp add: d_def)
    qed
    ultimately show ?thesis
      using r(2) by blast
  qed
qed



text \<open>The grid of the launch has a thread for every pixel of the plane.\<close>

lemma grid_threads_nonneg: "\<forall>(x, y) \<in> set (grid_threads blocks threads). 0 \<le> x \<and> 0 \<le> y"
  by (auto simp: grid_threads_def)

lemma grid_threads_cover:
  assumes "0 \<le> x" "x < w" "0 \<le> y" "y < h"
  shows "(x, y) \<in> set (grid_threads (nat (c_div (w + 15) 16), nat (c_div (h + 15) 16)) (16, 16))"
proof -
  have cover: "\<exists>b t. b < nat (c_div (n + 15) 16) \<and> t < 16 \<and> v = int (b * 16 + t)"
    if "0 \<le> v" "v < n" for v n :: int
  proof (intro exI conjI)
    have "c_div (n + 15) 16 = (n + 15) div 16"
      using that by (simp add: c_div_nonneg)
    moreover have "v div 16 < (n + 15) div 16"
      using that by linarith
    ultimately show "nat (v div 16) < nat (c_div (n + 15) 16)"
      using that by simp
    show "nat (v mod 16) < 16"
      by simp
    have "0 \<le> v div 16"
      using that by (simp add: pos_imp_zdiv_nonneg_iff)
    then show "v = int (nat (v div 16) * 16 + nat (v mod 16))"
      by simp
  qed
  obtain bx tx where x: "bx < nat (c_div (w + 15) 16)" "tx < 16" "x = int (bx * 16 + tx)"
    using cover[OF assms(1,2)] by blast
  obtain bz tz where y: "bz < nat (c_div (h + 15) 16)" "tz < 16" "y = int (bz * 16 + tz)"
    using cover[OF assms(3,4)] by blast
  have "(int (bx * 16 + tx), int (bz * 16 + tz)) \<in>
          set (grid_threads (nat (c_div (w + 15) 16), nat (c_div (h + 15) 16)) (16, 16))"
    unfolding grid_threads_def
    apply simp
    apply (rule bexI [where x = bz])
     apply (rule bexI [where x = bx])
      apply (rule bexI [where x = tz])
       apply (rule image_eqI [where x = tx])
    using x(1,2) y(1,2) apply simp_all
    done
  then show ?thesis
    by (simp only: x(3) y(3))
qed

text \<open>
  The wrapper on a plane of \<open>h\<close> rows of \<open>stride\<close> cells: every pixel of the result is
  the cell its thread writes, and the cells between the rows are never written.
\<close>

lemma runDeintKernel_plane:
  assumes "0 < w" "0 < h" "w \<le> stride" "stride * h < 2 ^ 64"
    and "length sp = nat stride * nat h" "None \<notin> set sp"
    and "length dp = nat stride * nat h"
  shows "\<exists>dp'. runDeintKernel sp dp w h stride useTop isChroma = Inr dp'
     \<and> length dp' = nat stride * nat h
     \<and> (\<forall>x y. 0 \<le> x \<and> x < w \<and> 0 \<le> y \<and> y < h \<longrightarrow>
           dp' ! offset y (nat stride) x = thread_cell sp w h (nat stride) useTop isChroma x y)
     \<and> (\<forall>i < nat stride * nat h.
           (\<forall>x y. 0 \<le> x \<and> x < w \<and> 0 \<le> y \<and> y < h \<longrightarrow> offset y (nat stride) x \<noteq> i) \<longrightarrow>
           dp' ! i = None)"
proof -
  define n where "n = nat stride * nat h"
  have pos: "0 < stride" using assms(1,3) by simp
  have n: "int n = stride * h"
    using pos assms(2) by (simp add: n_def)
  have nb: "n < 2 ^ 64"
    using n assms(4) by (metis of_nat_less_iff of_nat_numeral of_nat_power)
  have "stride * 1 \<le> stride * h"
    using pos assms(2) by (intro mult_left_mono) simp_all
  then have sb: "stride < 2 ^ 64" using assms(4) by simp
  have "h * 1 \<le> stride * h"
    using pos assms(2) by (simp add: mult_le_cancel_right)
  then have hb: "h < 2 ^ 64" using assms(4) by simp
  have st: "size_t stride = nat stride" "size_t h = nat h"
    using pos sb assms(2) hb by (simp_all add: size_t_def)
  have fs: "(size_t stride * size_t h) mod 2 ^ 64 = n"
    using nb by (simp add: st n_def)
  have cp: "cudaMemcpy (cudaMalloc n) sp n = Inr sp"
    using assms(5) by (simp add: cudaMemcpy_def cudaMalloc_def n_def)
  obtain d where d: "run_threads sp w h (nat stride) useTop isChroma
        (grid_threads (nat (c_div (w + 15) 16), nat (c_div (h + 15) 16)) (16, 16))
        (cudaMalloc n) = Inr d"
    "length d = nat stride * nat h"
    "\<And>x y. 0 \<le> x \<and> x < w \<and> 0 \<le> y \<and> y < h \<Longrightarrow>
       d ! offset y (nat stride) x =
         (if (x, y) \<in> set (grid_threads (nat (c_div (w + 15) 16), nat (c_div (h + 15) 16)) (16, 16))
          then thread_cell sp w h (nat stride) useTop isChroma x y
          else cudaMalloc n ! offset y (nat stride) x)"
    "\<And>i. (\<forall>x y. 0 \<le> x \<and> x < w \<and> 0 \<le> y \<and> y < h \<longrightarrow> offset y (nat stride) x \<noteq> i) \<Longrightarrow>
       d ! i = cudaMalloc n ! i"
    using run_threads_cells[where src = sp and w = w and h = h and stride = "nat stride"
        and ts = "grid_threads (nat (c_div (w + 15) 16), nat (c_div (h + 15) 16)) (16, 16)"
        and dst = "cudaMalloc n" and useTop = useTop and isChroma = isChroma]
      grid_threads_nonneg assms(3,5,6) pos nb
    by (auto simp: n_def cudaMalloc_def)
  have out: "cudaMemcpy dp d n = Inr d"
    using d(2) assms(7) by (simp add: cudaMemcpy_def n_def)
  have run: "runDeintKernel sp dp w h stride useTop isChroma = Inr d"
    unfolding runDeintKernel_def Let_def fs
    by (simp add: cp st(1) d(1) out)
  have px: "d ! offset y (nat stride) x = thread_cell sp w h (nat stride) useTop isChroma x y"
    if "0 \<le> x \<and> x < w \<and> 0 \<le> y \<and> y < h" for x y
    using d(3)[OF that] grid_threads_cover[of x w y h] that by simp
  have pad: "d ! i = None"
    if "i < nat stride * nat h"
      "\<forall>x y. 0 \<le> x \<and> x < w \<and> 0 \<le> y \<and> y < h \<longrightarrow> offset y (nat stride) x \<noteq> i" for i
    using d(4)[OF that(2)] that(1) by (simp add: cudaMalloc_def n_def)
  show ?thesis
    using run d(2) px pad by blast
qed



section \<open>The frame returned\<close>

text \<open>
  The loop over the planes gives every plane of the destination the result of the
  wrapper on that plane, when the wrapper ends without a fault on each of them.
\<close>

lemma plane_loop_planes:
  assumes "0 \<le> k" "nat nplanes \<le> length src" "nat nplanes \<le> length dst"
    and "\<forall>p. k \<le> p \<and> p < nplanes \<longrightarrow>
          (\<exists>r. runDeintKernel (planeData (src ! nat p)) (planeData (dst ! nat p))
                 (frameWidth (src ! nat p)) (frameHeight (src ! nat p))
                 (frameStride (src ! nat p))
                 (if useTop then 1 else 0) (if p > 0 then 1 else 0) = Inr r)"
  shows "\<exists>dst'. plane_loop src useTop nplanes k dst = Inr dst'
     \<and> length dst' = length dst
     \<and> (\<forall>p. k \<le> p \<and> p < nplanes \<longrightarrow>
           runDeintKernel (planeData (src ! nat p)) (planeData (dst ! nat p))
             (frameWidth (src ! nat p)) (frameHeight (src ! nat p))
             (frameStride (src ! nat p))
             (if useTop then 1 else 0) (if p > 0 then 1 else 0)
           = Inr (planeData (dst' ! nat p)))
     \<and> (\<forall>q. q < length dst \<and> \<not> (k \<le> int q \<and> int q < nplanes) \<longrightarrow> dst' ! q = dst ! q)"
  using assms
proof (induction "nat (nplanes - k)" arbitrary: k dst)
  case 0
  then have "\<not> k < nplanes" by simp
  then show ?case
    by (subst plane_loop.simps) auto
next
  case (Suc m)
  then have lt: "k < nplanes" by linarith
  have idx: "nat k < length src" "nat k < length dst"
    using lt Suc.prems(1,2,3) by linarith+
  obtain r where r: "runDeintKernel (planeData (src ! nat k)) (planeData (dst ! nat k))
                 (frameWidth (src ! nat k)) (frameHeight (src ! nat k))
                 (frameStride (src ! nat k))
                 (if useTop then 1 else 0) (if k > 0 then 1 else 0) = Inr r"
    using Suc.prems(4) lt by blast
  define d where "d = dst[nat k := (dst ! nat k)\<lparr>planeData := r\<rparr>]"
  have step: "plane_loop src useTop nplanes k dst = plane_loop src useTop nplanes (k + 1) d"
    using lt idx Suc.prems(1) by (subst plane_loop.simps) (simp add: Let_def r d_def)
  have m: "m = nat (nplanes - (k + 1))"
    using Suc.hyps(2) by linarith
  have same: "d ! nat p = dst ! nat p" if "k + 1 \<le> p" for p
    using that Suc.prems(1) by (simp add: d_def)
  have pre: "\<forall>p. k + 1 \<le> p \<and> p < nplanes \<longrightarrow>
          (\<exists>r. runDeintKernel (planeData (src ! nat p)) (planeData (d ! nat p))
                 (frameWidth (src ! nat p)) (frameHeight (src ! nat p))
                 (frameStride (src ! nat p))
                 (if useTop then 1 else 0) (if p > 0 then 1 else 0) = Inr r)"
  proof (intro allI impI)
    fix p
    assume p: "k + 1 \<le> p \<and> p < nplanes"
    then have "k \<le> p \<and> p < nplanes" by simp
    then obtain r' where "runDeintKernel (planeData (src ! nat p)) (planeData (dst ! nat p))
                 (frameWidth (src ! nat p)) (frameHeight (src ! nat p))
                 (frameStride (src ! nat p))
                 (if useTop then 1 else 0) (if p > 0 then 1 else 0) = Inr r'"
      using Suc.prems(4) by blast
    then show "\<exists>r. runDeintKernel (planeData (src ! nat p)) (planeData (d ! nat p))
                 (frameWidth (src ! nat p)) (frameHeight (src ! nat p))
                 (frameStride (src ! nat p))
                 (if useTop then 1 else 0) (if p > 0 then 1 else 0) = Inr r"
      using same[of p] p by auto
  qed
  have ld: "nat nplanes \<le> length d" "0 \<le> k + 1"
    using Suc.prems(1,3) by (simp_all add: d_def)
  obtain dst' where i: "plane_loop src useTop nplanes (k + 1) d = Inr dst'"
    "length dst' = length d"
    "\<And>p. k + 1 \<le> p \<and> p < nplanes \<Longrightarrow>
           runDeintKernel (planeData (src ! nat p)) (planeData (d ! nat p))
             (frameWidth (src ! nat p)) (frameHeight (src ! nat p))
             (frameStride (src ! nat p))
             (if useTop then 1 else 0) (if p > 0 then 1 else 0)
           = Inr (planeData (dst' ! nat p))"
    "\<And>q. q < length d \<and> \<not> (k + 1 \<le> int q \<and> int q < nplanes) \<Longrightarrow> dst' ! q = d ! q"
    using Suc.hyps(1)[OF m ld(2) Suc.prems(2) ld(1) pre] by blast
  have atk: "dst' ! nat k = d ! nat k"
    using i(4)[of "nat k"] idx(2) Suc.prems(1) by (simp add: d_def)
  have planes: "runDeintKernel (planeData (src ! nat p)) (planeData (dst ! nat p))
             (frameWidth (src ! nat p)) (frameHeight (src ! nat p))
             (frameStride (src ! nat p))
             (if useTop then 1 else 0) (if p > 0 then 1 else 0)
           = Inr (planeData (dst' ! nat p))" if "k \<le> p \<and> p < nplanes" for p
  proof (cases "p = k")
    case True
    then show ?thesis
      using r atk idx(2) by (simp add: d_def)
  next
    case False
    then have "k + 1 \<le> p \<and> p < nplanes" using that by linarith
    then show ?thesis
      using i(3)[of p] same[of p] by simp
  qed
  have others: "dst' ! q = dst ! q"
    if "q < length dst \<and> \<not> (k \<le> int q \<and> int q < nplanes)" for q
  proof -
    have "dst' ! q = d ! q"
      using i(4)[of q] that by (simp add: d_def)
    moreover have "q \<noteq> nat k"
    proof
      assume "q = nat k"
      then have "int q = k" using Suc.prems(1) by simp
      then show False using that lt by simp
    qed
    ultimately show ?thesis
      by (simp add: d_def)
  qed
  have len: "length dst' = length dst"
    using i(2) by (simp add: d_def)
  show ?case
    unfolding step using i(1) len planes others by blast
qed



text \<open>The cell a thread writes, for each of the three kinds of rows.\<close>

lemma thread_cell_rows:
  assumes "0 \<le> x" "x < w" "0 \<le> y" "y < h" "w \<le> int stride"
    and "length bytes = stride * nat h"
  shows "\<not> missing useTop y \<Longrightarrow>
           thread_cell (map Some bytes) w h stride useTop isChroma x y =
             Some (bytes ! offset y stride x)"
    and "missing useTop y \<Longrightarrow> isChroma = 0 \<Longrightarrow>
           thread_cell (map Some bytes) w h stride useTop isChroma x y =
             Some (word_of_int
               ((uint (bytes ! offset (clamp_row h (y - 3)) stride x)
                 + uint (bytes ! offset (clamp_row h (y - 1)) stride x) * 4
                 + uint (bytes ! offset (clamp_row h (y + 1)) stride x) * 4
                 + uint (bytes ! offset (clamp_row h (y + 3)) stride x) + 5) div 10))"
    and "missing useTop y \<Longrightarrow> isChroma \<noteq> 0 \<Longrightarrow>
           thread_cell (map Some bytes) w h stride useTop isChroma x y =
             Some (word_of_int
               ((uint (bytes ! offset (max (y - 1) 0) stride x)
                 + uint (bytes ! offset (min (y + 1) (h - 1)) stride x) + 1) div 2))"
proof -
  have o: "offset y stride x < stride * nat h"
    using assms(1-5) by (simp add: offset_bound[where w = w])
  have l: "length (replicate (stride * nat h) (None :: u8 option)) = stride * nat h"
    by simp
  note g = assms l
  show "thread_cell (map Some bytes) w h stride useTop isChroma x y =
             Some (bytes ! offset y stride x)" if "\<not> missing useTop y"
    unfolding thread_cell_def using o by (simp add: deintKernel_present[OF g that])
  show "thread_cell (map Some bytes) w h stride useTop isChroma x y =
             Some (word_of_int
               ((uint (bytes ! offset (clamp_row h (y - 3)) stride x)
                 + uint (bytes ! offset (clamp_row h (y - 1)) stride x) * 4
                 + uint (bytes ! offset (clamp_row h (y + 1)) stride x) * 4
                 + uint (bytes ! offset (clamp_row h (y + 3)) stride x) + 5) div 10))"
    if "missing useTop y" "isChroma = 0"
    unfolding thread_cell_def using o by (simp add: deintKernel_luma(1)[OF g that])
  show "thread_cell (map Some bytes) w h stride useTop isChroma x y =
             Some (word_of_int
               ((uint (bytes ! offset (max (y - 1) 0) stride x)
                 + uint (bytes ! offset (min (y + 1) (h - 1)) stride x) + 1) div 2))"
    if "missing useTop y" "isChroma \<noteq> 0"
    unfolding thread_cell_def using o by (simp add: deintKernel_chroma[OF g that])
qed

text \<open>
  The frame that the frame function returns: every pixel of every plane is the cell
  that the thread of the pixel writes, computed from the plane of the source frame
  \<open>srcN\<close> with the flag \<open>useTop\<close>, as luma for plane 0 and as chroma for the others.
\<close>

lemma getFrame_frame:
  fixes d :: CudaDeintData and n :: int
    and newVideoFrame :: "VSVideoFormat \<Rightarrow> int \<Rightarrow> int \<Rightarrow> VSFrame \<Rightarrow> VSFrame"
  defines "src \<equiv> frames (node d) (srcN_of d n)"
  defines "dst \<equiv> newVideoFrame (format (vi d)) (width (vi d)) (height (vi d)) src"
  assumes "nat (numPlanes (format (vi d))) \<le> length src"
    and "nat (numPlanes (format (vi d))) \<le> length dst"
    and "\<forall>p < nat (numPlanes (format (vi d))). plane_ok (src ! p) (dst ! p)"
  shows "\<exists>out. cudaDeintGetFrame newVideoFrame n arAllFramesReady d =
            Inr (d,
                 [GetFrameFilter (srcN_of d n),
                  NewVideoFrame (format (vi d)) (width (vi d)) (height (vi d)),
                  FreeFrame (srcN_of d n)],
                 Some out)
     \<and> length out = length dst
     \<and> (\<forall>p < nat (numPlanes (format (vi d))). \<forall>x y.
           0 \<le> x \<and> x < frameWidth (src ! p) \<and> 0 \<le> y \<and> y < frameHeight (src ! p) \<longrightarrow>
           planeData (out ! p) ! offset y (nat (frameStride (src ! p))) x =
             thread_cell (planeData (src ! p)) (frameWidth (src ! p)) (frameHeight (src ! p))
               (nat (frameStride (src ! p)))
               (if useTop_of d n then 1 else 0) (if p > 0 then 1 else 0) x y)"
proof -
  define np where "np = numPlanes (format (vi d))"
  define u :: int where "u = (if useTop_of d n then 1 else 0)"
  have ok: "plane_ok (src ! nat p) (dst ! nat p)" if "0 \<le> p \<and> p < np" for p
    using assms(5) that by (simp add: np_def)
  have run: "\<exists>r. runDeintKernel (planeData (src ! nat p)) (planeData (dst ! nat p))
                 (frameWidth (src ! nat p)) (frameHeight (src ! nat p))
                 (frameStride (src ! nat p)) u (if p > 0 then 1 else 0) = Inr r"
    if "0 \<le> p \<and> p < np" for p
    using ok[OF that]
      runDeintKernel_plane[where sp = "planeData (src ! nat p)" and dp = "planeData (dst ! nat p)"
        and w = "frameWidth (src ! nat p)" and h = "frameHeight (src ! nat p)"
        and stride = "frameStride (src ! nat p)" and useTop = u
        and isChroma = "if p > 0 then 1 else 0"]
    unfolding plane_ok_def by blast
  obtain out where out: "plane_loop src (useTop_of d n) np 0 dst = Inr out"
    "length out = length dst"
    "\<And>p. 0 \<le> p \<and> p < np \<Longrightarrow>
           runDeintKernel (planeData (src ! nat p)) (planeData (dst ! nat p))
             (frameWidth (src ! nat p)) (frameHeight (src ! nat p))
             (frameStride (src ! nat p)) u (if p > 0 then 1 else 0)
           = Inr (planeData (out ! nat p))"
    using plane_loop_planes[where k = 0 and nplanes = np and src = src and dst = dst
        and useTop = "useTop_of d n"] run assms(3,4)
    unfolding np_def u_def by blast
  have px: "planeData (out ! p) ! offset y (nat (frameStride (src ! p))) x =
             thread_cell (planeData (src ! p)) (frameWidth (src ! p)) (frameHeight (src ! p))
               (nat (frameStride (src ! p))) u (if p > 0 then 1 else 0) x y"
    if p: "p < nat np"
      and xy: "0 \<le> x \<and> x < frameWidth (src ! p) \<and> 0 \<le> y \<and> y < frameHeight (src ! p)"
    for p x y
  proof -
    have ip: "0 \<le> int p \<and> int p < np" using p by linarith
    have c: "(if int p > 0 then 1 else 0) = (if p > 0 then 1 else (0::int))"
      by simp
    obtain dp' where r: "runDeintKernel (planeData (src ! p)) (planeData (dst ! p))
             (frameWidth (src ! p)) (frameHeight (src ! p))
             (frameStride (src ! p)) u (if p > 0 then 1 else 0) = Inr dp'"
      "\<And>x y. 0 \<le> x \<and> x < frameWidth (src ! p) \<and> 0 \<le> y \<and> y < frameHeight (src ! p) \<Longrightarrow>
           dp' ! offset y (nat (frameStride (src ! p))) x =
             thread_cell (planeData (src ! p)) (frameWidth (src ! p)) (frameHeight (src ! p))
               (nat (frameStride (src ! p))) u (if p > 0 then 1 else 0) x y"
      using ok[OF ip]
        runDeintKernel_plane[where sp = "planeData (src ! p)" and dp = "planeData (dst ! p)"
          and w = "frameWidth (src ! p)" and h = "frameHeight (src ! p)"
          and stride = "frameStride (src ! p)" and useTop = u
          and isChroma = "if p > 0 then 1 else 0"]
      unfolding plane_ok_def by auto
    have "planeData (out ! p) = dp'"
      using out(3)[OF ip] r(1) by (simp add: c)
    then show ?thesis
      using r(2)[OF xy] by simp
  qed
  show ?thesis
    using out(1,2) px
    by (simp add: cudaDeintGetFrame_def Let_def flip: src_def dst_def np_def u_def)
qed



text \<open>
  The example clip in single-rate mode, top field first: frame 0 is made from frame 0
  of the clip, its rows 0 and 2 are copied and its rows 1 and 3 are interpolated from
  the rows 0, 0, 2, 3 and 0, 2, 3, 3.
\<close>

lemma example_output:
  "\<exists>out. cudaDeintGetFrame example_alloc 0 arAllFramesReady (example_data 1 1) =
            Inr (example_data 1 1,
                 [GetFrameFilter 0, NewVideoFrame \<lparr>numPlanes = 1\<rparr> 2 4, FreeFrame 0],
                 Some out)
     \<and> map (\<lambda>i. planeData (out ! 0) ! i) [0, 1, 2, 3, 4, 5, 6, 7] =
         map Some [10, 20, 32, 42, 50, 60, 56, 66]"
proof -
  define bytes :: "u8 list" where "bytes = [10, 20, 30, 40, 50, 60, 70, 80]"
  define d where "d = example_data 1 1"
  have d: "srcN_of d 0 = 0" "useTop_of d 0" "frames (node d) 0 = example_frame"
    "format (vi d) = \<lparr>numPlanes = 1\<rparr>" "width (vi d) = 2" "height (vi d) = 4"
    by (simp_all add: d_def example_data_def srcN_of_def useTop_of_def example_clip_def
        example_vi_def)
  have f: "frameWidth (example_frame ! 0) = 2" "frameHeight (example_frame ! 0) = 4"
    "frameStride (example_frame ! 0) = 2" "planeData (example_frame ! 0) = map Some bytes"
    "length example_frame = 1"
    by (simp_all add: example_frame_def bytes_def)
  have a: "length (example_alloc \<lparr>numPlanes = 1\<rparr> 2 4 example_frame) = 1"
    "length (planeData (example_alloc \<lparr>numPlanes = 1\<rparr> 2 4 example_frame ! 0)) = 8"
    by (simp_all add: example_alloc_def example_frame_def)
  have ok: "\<forall>p < nat (numPlanes (format (vi d))).
      plane_ok (frames (node d) (srcN_of d 0) ! p)
        (example_alloc (format (vi d)) (width (vi d)) (height (vi d))
           (frames (node d) (srcN_of d 0)) ! p)"
    by (simp add: d f a plane_ok_def bytes_def)
  obtain out where out:
    "cudaDeintGetFrame example_alloc 0 arAllFramesReady d =
       Inr (d, [GetFrameFilter 0, NewVideoFrame \<lparr>numPlanes = 1\<rparr> 2 4, FreeFrame 0], Some out)"
    "\<And>x y. 0 \<le> x \<and> x < 2 \<and> 0 \<le> y \<and> y < 4 \<Longrightarrow>
       planeData (out ! 0) ! offset y 2 x = thread_cell (map Some bytes) 2 4 2 1 0 x y"
    using getFrame_frame[where d = d and n = 0 and newVideoFrame = example_alloc, OF _ _ ok]
    by (auto simp: d f a)
  have off: "offset y 2 x = nat (2 * y + x)" if "0 \<le> x \<and> x < 2 \<and> 0 \<le> y \<and> y < 4" for x y
    using that offset_exact[where yy = y and h = 4 and x = x and w = 2 and stride = 2]
    by (simp add: nat_add_distrib nat_mult_distrib)
  have cell: "planeData (out ! 0) ! nat (2 * y + x) = thread_cell (map Some bytes) 2 4 2 1 0 x y"
    if "0 \<le> x \<and> x < 2 \<and> 0 \<le> y \<and> y < 4" for x y
    using out(2)[OF that] off[OF that] by simp
  have m: "\<not> missing 1 0" "missing 1 1" "\<not> missing 1 2" "missing 1 3"
    by (simp_all add: missing_def c_rem_def c_div_def)
  have lb: "length bytes = 2 * nat 4"
    by (simp add: bytes_def)
  have c0: "thread_cell (map Some bytes) 2 4 2 1 0 0 0 = Some 10"
    using thread_cell_rows(1)[where x = 0 and y = 0 and w = 2 and h = 4 and stride = 2
        and bytes = bytes and useTop = 1 and isChroma = 0] lb m(1)
    by (simp add: offset_def size_t_def bytes_def)
  have c1: "thread_cell (map Some bytes) 2 4 2 1 0 1 0 = Some 20"
    using thread_cell_rows(1)[where x = 1 and y = 0 and w = 2 and h = 4 and stride = 2
        and bytes = bytes and useTop = 1 and isChroma = 0] lb m(1)
    by (simp add: offset_def size_t_def bytes_def)
  have c2: "thread_cell (map Some bytes) 2 4 2 1 0 0 1 = Some 32"
    using thread_cell_rows(2)[where x = 0 and y = 1 and w = 2 and h = 4 and stride = 2
        and bytes = bytes and useTop = 1 and isChroma = 0] lb m(2)
    by (simp add: offset_def size_t_def bytes_def clamp_row_def)
  have c3: "thread_cell (map Some bytes) 2 4 2 1 0 1 1 = Some 42"
    using thread_cell_rows(2)[where x = 1 and y = 1 and w = 2 and h = 4 and stride = 2
        and bytes = bytes and useTop = 1 and isChroma = 0] lb m(2)
    by (simp add: offset_def size_t_def bytes_def clamp_row_def)
  have c4: "thread_cell (map Some bytes) 2 4 2 1 0 0 2 = Some 50"
    using thread_cell_rows(1)[where x = 0 and y = 2 and w = 2 and h = 4 and stride = 2
        and bytes = bytes and useTop = 1 and isChroma = 0] lb m(3)
    by (simp add: offset_def size_t_def bytes_def)
  have c5: "thread_cell (map Some bytes) 2 4 2 1 0 1 2 = Some 60"
    using thread_cell_rows(1)[where x = 1 and y = 2 and w = 2 and h = 4 and stride = 2
        and bytes = bytes and useTop = 1 and isChroma = 0] lb m(3)
    by (simp add: offset_def size_t_def bytes_def)
  have c6: "thread_cell (map Some bytes) 2 4 2 1 0 0 3 = Some 56"
    using thread_cell_rows(2)[where x = 0 and y = 3 and w = 2 and h = 4 and stride = 2
        and bytes = bytes and useTop = 1 and isChroma = 0] lb m(4)
    by (simp add: offset_def size_t_def bytes_def clamp_row_def)
  have c7: "thread_cell (map Some bytes) 2 4 2 1 0 1 3 = Some 66"
    using thread_cell_rows(2)[where x = 1 and y = 3 and w = 2 and h = 4 and stride = 2
        and bytes = bytes and useTop = 1 and isChroma = 0] lb m(4)
    by (simp add: offset_def size_t_def bytes_def clamp_row_def)
  have "map (\<lambda>i. planeData (out ! 0) ! i) [0, 1, 2, 3, 4, 5, 6, 7] =
         map Some [10, 20, 32, 42, 50, 60, 56, 66]"
    using cell[of 0 0] cell[of 1 0] cell[of 0 1] cell[of 1 1]
      cell[of 0 2] cell[of 1 2] cell[of 0 3] cell[of 1 3]
    by (simp add: c0 c1 c2 c3 c4 c5 c6 c7)
  then show ?thesis
    using out(1) unfolding d_def by blast
qed


end
